theory Spec2Isabelle
  imports Main "HOL-Library.Sublist"
begin

section \<open>Go strings and the library functions the handlers call\<close>

text \<open>
  A Go string is a sequence of bytes, so it is modelled as a \<^typ>\<open>string\<close> (a list of
  8-bit characters). Runes are natural numbers. The functions of this section are the
  functions of the Go standard library (Unix build) that \<^verbatim>\<open>internal/handler/handler.go\<close>
  calls; each one is written after the behaviour its package documents.
\<close>

definition byte :: "char \<Rightarrow> nat" where
  "byte c = of_char c"

definition byte_of :: "nat \<Rightarrow> char" where
  "byte_of n = char_of n"

subsection \<open>Package strings\<close>

definition strings_HasPrefix :: "string \<Rightarrow> string \<Rightarrow> bool" where
  "strings_HasPrefix s p = prefix p s"

definition strings_HasSuffix :: "string \<Rightarrow> string \<Rightarrow> bool" where
  "strings_HasSuffix s p = suffix p s"

definition strings_TrimPrefix :: "string \<Rightarrow> string \<Rightarrow> string" where
  "strings_TrimPrefix s p = (if prefix p s then drop (length p) s else s)"

definition strings_TrimSuffix :: "string \<Rightarrow> string \<Rightarrow> string" where
  "strings_TrimSuffix s p = (if suffix p s then take (length s - length p) s else s)"

fun strings_Contains :: "string \<Rightarrow> string \<Rightarrow> bool" where
  "strings_Contains [] sub = (sub = [])"
| "strings_Contains (c # cs) sub = (prefix sub (c # cs) \<or> strings_Contains cs sub)"

text \<open>\<^verbatim>\<open>TrimLeft\<close> and \<^verbatim>\<open>TrimRight\<close> with a cutset of ASCII characters work byte by byte.\<close>

definition strings_TrimLeft :: "string \<Rightarrow> string \<Rightarrow> string" where
  "strings_TrimLeft s cutset = dropWhile (\<lambda>c. c \<in> set cutset) s"

definition strings_TrimRight :: "string \<Rightarrow> string \<Rightarrow> string" where
  "strings_TrimRight s cutset = rev (dropWhile (\<lambda>c. c \<in> set cutset) (rev s))"

fun strings_Join :: "string list \<Rightarrow> string \<Rightarrow> string" where
  "strings_Join [] sep = []"
| "strings_Join [x] sep = x"
| "strings_Join (x # y # ys) sep = x @ sep @ strings_Join (y # ys) sep"

subsection \<open>Package unicode/utf8\<close>

definition RuneError :: nat where
  "RuneError = 0xFFFD"

definition isCont :: "char \<Rightarrow> nat \<Rightarrow> nat \<Rightarrow> bool" where
  "isCont c lo hi = (lo \<le> byte c \<and> byte c \<le> hi)"

definition contVal :: "char \<Rightarrow> nat" where
  "contVal c = byte c - 0x80"

text \<open>
  \<^verbatim>\<open>utf8.DecodeRuneInString\<close>: the rune at the front of the string and its width in bytes.
  An empty string gives width 0; a byte that does not start a well-formed, shortest-form
  encoding of a code point other than a surrogate gives \<^const>\<open>RuneError\<close> with width 1.
\<close>

fun utf8_DecodeRuneInString :: "string \<Rightarrow> nat \<times> nat" where
  "utf8_DecodeRuneInString [] = (RuneError, 0)"
| "utf8_DecodeRuneInString (c # cs) =
     (let b0 = byte c in
      if b0 < 0x80 then (b0, 1)
      else if b0 < 0xC2 then (RuneError, 1)
      else if b0 < 0xE0 then
        (case cs of
           c1 # _ \<Rightarrow> if isCont c1 0x80 0xBF then ((b0 - 0xC0) * 64 + contVal c1, 2)
                      else (RuneError, 1)
         | _ \<Rightarrow> (RuneError, 1))
      else if b0 < 0xF0 then
        (case cs of
           c1 # c2 # _ \<Rightarrow>
             if isCont c1 (if b0 = 0xE0 then 0xA0 else 0x80) (if b0 = 0xED then 0x9F else 0xBF)
                \<and> isCont c2 0x80 0xBF
             then ((b0 - 0xE0) * 4096 + contVal c1 * 64 + contVal c2, 3)
             else (RuneError, 1)
         | _ \<Rightarrow> (RuneError, 1))
      else if b0 < 0xF5 then
        (case cs of
           c1 # c2 # c3 # _ \<Rightarrow>
             if isCont c1 (if b0 = 0xF0 then 0x90 else 0x80) (if b0 = 0xF4 then 0x8F else 0xBF)
                \<and> isCont c2 0x80 0xBF \<and> isCont c3 0x80 0xBF
             then ((b0 - 0xF0) * 262144 + contVal c1 * 4096 + contVal c2 * 64 + contVal c3, 4)
             else (RuneError, 1)
         | _ \<Rightarrow> (RuneError, 1))
      else (RuneError, 1))"

text \<open>\<^verbatim>\<open>utf8.AppendRune\<close>, which \<^verbatim>\<open>strings.Builder.WriteRune\<close> calls.\<close>

definition utf8_EncodeRune :: "nat \<Rightarrow> string" where
  "utf8_EncodeRune r =
     (if r < 0x80 then [byte_of r]
      else if r < 0x800 then [byte_of (0xC0 + r div 64), byte_of (0x80 + r mod 64)]
      else if (0xD800 \<le> r \<and> r \<le> 0xDFFF) \<or> 0x10FFFF < r then [CHR 0xEF, CHR 0xBF, CHR 0xBD]
      else if r < 0x10000 then
        [byte_of (0xE0 + r div 4096), byte_of (0x80 + (r div 64) mod 64), byte_of (0x80 + r mod 64)]
      else
        [byte_of (0xF0 + r div 262144), byte_of (0x80 + (r div 4096) mod 64),
         byte_of (0x80 + (r div 64) mod 64), byte_of (0x80 + r mod 64)])"

lemma utf8_width_pos: "0 < snd (utf8_DecodeRuneInString (c # cs))"
  by (simp add: Let_def split: list.splits)

text \<open>The runes a \<^verbatim>\<open>for _, r := range s\<close> loop visits.\<close>

function runes :: "string \<Rightarrow> nat list" where
  "runes [] = []"
| "runes (c # cs) =
     fst (utf8_DecodeRuneInString (c # cs))
       # runes (drop (snd (utf8_DecodeRuneInString (c # cs))) (c # cs))"
  by pat_completeness auto
termination
proof (relation "measure length")
  show "wf (measure length)" by simp
next
  fix c :: char and cs :: string
  have "0 < snd (utf8_DecodeRuneInString (c # cs))" by (rule utf8_width_pos)
  then show "(drop (snd (utf8_DecodeRuneInString (c # cs))) (c # cs), c # cs) \<in> measure length"
    by simp
qed

text \<open>
  \<^verbatim>\<open>strings.Replace(s, old, new, -1)\<close> (and \<^verbatim>\<open>strings.ReplaceAll\<close>): every non-overlapping
  occurrence of \<open>old\<close>, from the left. An empty \<open>old\<close> matches before every rune and at the end.
\<close>

fun replaceNonEmpty :: "string \<Rightarrow> string \<Rightarrow> string \<Rightarrow> string" where
  "replaceNonEmpty old new [] = []"
| "replaceNonEmpty old new (c # cs) =
     (if old \<noteq> [] \<and> prefix old (c # cs)
      then new @ replaceNonEmpty old new (drop (length old - 1) cs)
      else c # replaceNonEmpty old new cs)"

function runeChunks :: "string \<Rightarrow> string list" where
  "runeChunks [] = []"
| "runeChunks (c # cs) =
     take (snd (utf8_DecodeRuneInString (c # cs))) (c # cs)
       # runeChunks (drop (snd (utf8_DecodeRuneInString (c # cs))) (c # cs))"
  by pat_completeness auto
termination
proof (relation "measure length")
  show "wf (measure length)" by simp
next
  fix c :: char and cs :: string
  have "0 < snd (utf8_DecodeRuneInString (c # cs))" by (rule utf8_width_pos)
  then show "(drop (snd (utf8_DecodeRuneInString (c # cs))) (c # cs), c # cs) \<in> measure length"
    by simp
qed

definition strings_ReplaceAll :: "string \<Rightarrow> string \<Rightarrow> string \<Rightarrow> string" where
  "strings_ReplaceAll s old new =
     (if old = new then s
      else if old = [] then new @ concat (map (\<lambda>ch. ch @ new) (runeChunks s))
      else replaceNonEmpty old new s)"

subsection \<open>Package unicode and \<^verbatim>\<open>strings.ToLower\<close>\<close>

text \<open>
  What the handlers need of the Go runtime and of the tables of its library is collected in
  one record: the entity decoder of package \<^verbatim>\<open>html\<close> (with its table of named entities), the
  lower-case mapping of package \<^verbatim>\<open>unicode\<close> for runes beyond ASCII, and the result of
  \<^verbatim>\<open>os.Getwd\<close> (\<open>None\<close> when it returns an error). Every theorem below holds for every such record.
\<close>

record go_env =
  html_unescapeEntities :: "string \<Rightarrow> string"
  unicode_lowerTable :: "nat \<Rightarrow> nat"
  os_Getwd :: "string option"

definition unicode_IsControl :: "nat \<Rightarrow> bool" where
  "unicode_IsControl r = (r \<le> 0x1F \<or> (0x7F \<le> r \<and> r \<le> 0x9F))"

definition unicode_ToLower :: "go_env \<Rightarrow> nat \<Rightarrow> nat" where
  "unicode_ToLower E r =
     (if r \<le> 0x7F then (if 0x41 \<le> r \<and> r \<le> 0x5A then r + 0x20 else r)
      else unicode_lowerTable E r)"

definition strings_Map :: "(nat \<Rightarrow> nat) \<Rightarrow> string \<Rightarrow> string" where
  "strings_Map mapping s = concat (map (\<lambda>r. utf8_EncodeRune (mapping r)) (runes s))"

definition asciiLower :: "char \<Rightarrow> char" where
  "asciiLower c = (if 0x41 \<le> byte c \<and> byte c \<le> 0x5A then byte_of (byte c + 0x20) else c)"

definition strings_ToLower :: "go_env \<Rightarrow> string \<Rightarrow> string" where
  "strings_ToLower E s =
     (if list_all (\<lambda>c. byte c < 0x80) s then map asciiLower s
      else strings_Map (unicode_ToLower E) s)"

subsection \<open>Package path/filepath (Unix)\<close>

text \<open>
  \<^verbatim>\<open>filepath.Clean\<close> by its documented rules: repeated separators collapse, \<open>.\<close> elements
  vanish, an inner \<open>..\<close> removes the element before it, a \<open>..\<close> at the root of a rooted path
  vanishes and one that cannot be resolved in a relative path stays. The elements are kept on
  a stack (last element first); the result ends in a slash only when it is the root, and the
  empty result is \<open>.\<close>.
\<close>

fun splitOn :: "char \<Rightarrow> string \<Rightarrow> string list" where
  "splitOn sep [] = [[]]"
| "splitOn sep (c # cs) =
     (if c = sep then [] # splitOn sep cs
      else (case splitOn sep cs of
              x # xs \<Rightarrow> (c # x) # xs
            | [] \<Rightarrow> [[c]]))"

definition cleanStep :: "bool \<Rightarrow> string list \<Rightarrow> string \<Rightarrow> string list" where
  "cleanStep rooted out e =
     (if e = [] \<or> e = ''.'' then out
      else if e = ''..'' then
        (case out of
           [] \<Rightarrow> (if rooted then [] else [''..''])
         | e0 # below \<Rightarrow> (if e0 = ''..'' then ''..'' # out else below))
      else e # out)"

definition filepath_IsAbs :: "string \<Rightarrow> bool" where
  "filepath_IsAbs path = strings_HasPrefix path ''/''"

definition filepath_Clean :: "string \<Rightarrow> string" where
  "filepath_Clean path =
     (if path = [] then ''.''
      else
        (let rooted = filepath_IsAbs path;
             out = foldl (cleanStep rooted) [] (splitOn CHR ''/'' path);
             body = strings_Join (rev out) ''/''
         in if rooted then CHR ''/'' # body
            else if out = [] then ''.''
            else body))"

text \<open>\<^verbatim>\<open>filepath.Join\<close>: leading empty elements are ignored; the rest is joined and cleaned.\<close>

definition filepath_Join :: "string list \<Rightarrow> string" where
  "filepath_Join elem =
     (case dropWhile (\<lambda>e. e = []) elem of
        [] \<Rightarrow> []
      | es \<Rightarrow> filepath_Clean (strings_Join es ''/''))"

text \<open>\<^verbatim>\<open>filepath.Dir\<close>: everything up to the last separator, cleaned.\<close>

definition filepath_Dir :: "string \<Rightarrow> string" where
  "filepath_Dir path =
     filepath_Clean (rev (dropWhile (\<lambda>c. c \<noteq> CHR ''/'') (rev path)))"

text \<open>\<^verbatim>\<open>filepath.ToSlash\<close> is the identity where the separator is the slash.\<close>

definition filepath_ToSlash :: "string \<Rightarrow> string" where
  "filepath_ToSlash path = path"

datatype path_error =
    ErrAbsolutePath
  | ErrUNCPath
  | ErrInvalidEncoding string
  | ErrTraversal
  | ErrAbsBase
  | ErrAbsFull
  | ErrEscapesBase

text \<open>\<^verbatim>\<open>filepath.Abs\<close> fails only when the working directory cannot be read.\<close>

definition filepath_Abs :: "go_env \<Rightarrow> string \<Rightarrow> string option" where
  "filepath_Abs E path =
     (if filepath_IsAbs path then Some (filepath_Clean path)
      else (case os_Getwd E of
              None \<Rightarrow> None
            | Some wd \<Rightarrow> Some (filepath_Join [wd, path])))"

subsection \<open>Packages net/url and html\<close>

definition ishex :: "char \<Rightarrow> bool" where
  "ishex c =
     ((0x30 \<le> byte c \<and> byte c \<le> 0x39) \<or> (0x61 \<le> byte c \<and> byte c \<le> 0x66)
      \<or> (0x41 \<le> byte c \<and> byte c \<le> 0x46))"

definition unhex :: "char \<Rightarrow> nat" where
  "unhex c =
     (if 0x30 \<le> byte c \<and> byte c \<le> 0x39 then byte c - 0x30
      else if 0x61 \<le> byte c \<and> byte c \<le> 0x66 then byte c - 0x61 + 10
      else if 0x41 \<le> byte c \<and> byte c \<le> 0x46 then byte c - 0x41 + 10
      else 0)"

text \<open>
  \<^verbatim>\<open>url.QueryUnescape\<close> reads the string twice. The first pass returns an \<^verbatim>\<open>EscapeError\<close>
  (with the offending text) at a \<open>%\<close> that two hexadecimal digits do not follow.
\<close>

fun unescapeCheck :: "string \<Rightarrow> string option" where
  "unescapeCheck [] = None"
| "unescapeCheck (c # cs) =
     (if c = CHR ''%'' then
        (case cs of
           a # b # rest \<Rightarrow>
             if ishex a \<and> ishex b then unescapeCheck rest else Some (take 3 (c # cs))
         | _ \<Rightarrow> Some (take 3 (c # cs)))
      else unescapeCheck cs)"

text \<open>The second pass decodes; it runs only on strings the first pass accepted.\<close>

fun unescapeBytes :: "string \<Rightarrow> string" where
  "unescapeBytes [] = []"
| "unescapeBytes (c # cs) =
     (if c = CHR ''%'' then
        (case cs of
           a # b # rest \<Rightarrow> byte_of (unhex a * 16 + unhex b) # unescapeBytes rest
         | _ \<Rightarrow> c # unescapeBytes cs)
      else if c = CHR ''+'' then CHR '' '' # unescapeBytes cs
      else c # unescapeBytes cs)"

definition url_QueryUnescape :: "string \<Rightarrow> string + string" where
  "url_QueryUnescape s =
     (case unescapeCheck s of
        Some bad \<Rightarrow> Inl bad
      | None \<Rightarrow> Inr (unescapeBytes s))"

text \<open>
  \<^verbatim>\<open>html.UnescapeString\<close> returns its argument when it holds no \<open>&\<close>; otherwise it decodes
  the entities, which is the part taken from the environment.
\<close>

definition html_UnescapeString :: "go_env \<Rightarrow> string \<Rightarrow> string" where
  "html_UnescapeString E s =
     (if CHR ''&'' \<notin> set s then s else html_unescapeEntities E s)"

section \<open>The path resolver (\<^verbatim>\<open>internal/handler/handler.go\<close>, lines 24 to 261)\<close>

text \<open>
  \<^verbatim>\<open>decodeMultipleLayers\<close>: at most five rounds of URL decoding and HTML entity decoding,
  stopping at the first round that changes nothing. A URL decoding error leaves the current
  string as it is. The function has an error result, and every return statement gives
  \<^verbatim>\<open>nil\<close> for it.
\<close>

definition decodeRound :: "go_env \<Rightarrow> string \<Rightarrow> string" where
  "decodeRound E current =
     html_UnescapeString E
       (case url_QueryUnescape current of
          Inr decoded \<Rightarrow> decoded
        | Inl err \<Rightarrow> current)"

fun decodeLoop :: "go_env \<Rightarrow> nat \<Rightarrow> string \<Rightarrow> string" where
  "decodeLoop E 0 current = current"
| "decodeLoop E (Suc n) current =
     (let previous = current;
          current' = decodeRound E current
      in if current' = previous then current' else decodeLoop E n current')"

definition maxIterations :: nat where
  "maxIterations = 5"

definition decodeMultipleLayers :: "go_env \<Rightarrow> string \<Rightarrow> string + string" where
  "decodeMultipleLayers E input = Inr (decodeLoop E maxIterations input)"

text \<open>
  \<^verbatim>\<open>isValidUTF8Start\<close>; the test \<^verbatim>\<open>(b & 0xC0) == 0x80\<close> on a byte holds exactly when the
  byte lies between \<open>0x80\<close> and \<open>0xBF\<close>.
\<close>

definition contAt :: "string \<Rightarrow> nat \<Rightarrow> bool" where
  "contAt bytes i = (i < length bytes \<and> isCont (bytes ! i) 0x80 0xBF)"

definition isValidUTF8Start :: "string \<Rightarrow> bool" where
  "isValidUTF8Start bytes =
     (case bytes of
        [] \<Rightarrow> False
      | c # _ \<Rightarrow>
          (let b = byte c in
           if b < 0x80 then True
           else if b < 0xC2 \<or> 0xF4 < b then False
           else if b < 0xE0 then 2 \<le> length bytes \<and> contAt bytes 1
           else if b < 0xF0 then 3 \<le> length bytes \<and> contAt bytes 1 \<and> contAt bytes 2
           else 4 \<le> length bytes \<and> contAt bytes 1 \<and> contAt bytes 2 \<and> contAt bytes 3))"

text \<open>
  \<^verbatim>\<open>sanitizeUTF8\<close>: the two overlong pairs become \<open>.\<close> and \<open>/\<close>; otherwise the byte at the
  cursor is copied when it is ASCII or starts a sequence, and the cursor moves one byte.
\<close>

fun sanitizeUTF8 :: "string \<Rightarrow> string" where
  "sanitizeUTF8 [] = []"
| "sanitizeUTF8 [a] = (if byte a < 0x80 \<or> isValidUTF8Start [a] then [a] else [])"
| "sanitizeUTF8 (a # b # rest) =
     (if a = CHR 0xC0 \<and> b = CHR 0xAE then CHR ''.'' # sanitizeUTF8 rest
      else if a = CHR 0xC0 \<and> b = CHR 0xAF then CHR ''/'' # sanitizeUTF8 rest
      else if byte a < 0x80 \<or> isValidUTF8Start (a # b # rest) then a # sanitizeUTF8 (b # rest)
      else sanitizeUTF8 (b # rest))"

text \<open>The loop of \<^verbatim>\<open>normalizeAndClean\<close> over the runes of the sanitized string.\<close>

fun normalizeRunes :: "nat list \<Rightarrow> string" where
  "normalizeRunes [] = []"
| "normalizeRunes (r # rs) =
     (if r = 0 \<or> (unicode_IsControl r \<and> r \<noteq> 0x09 \<and> r \<noteq> 0x0A \<and> r \<noteq> 0x0D)
      then normalizeRunes rs
      else if r = 0x2215 then utf8_EncodeRune 0x2F @ normalizeRunes rs
      else if r = 0x2044 then utf8_EncodeRune 0x2F @ normalizeRunes rs
      else if r = 0xFF0E then utf8_EncodeRune 0x2E @ normalizeRunes rs
      else if r = 0xFF0F then utf8_EncodeRune 0x2F @ normalizeRunes rs
      else utf8_EncodeRune r @ normalizeRunes rs)"

definition normalizeAndClean :: "string \<Rightarrow> string" where
  "normalizeAndClean input = normalizeRunes (runes (sanitizeUTF8 input))"

definition traversalPatterns :: "string list" where
  "traversalPatterns =
     [''. .'', [CHR ''.'', CHR 0x09, CHR ''.''], ''. ./'', [CHR ''.'', CHR 0x09, CHR ''.'', CHR ''/''],
      '' ../'', [CHR 0x09, CHR ''.'', CHR ''.'', CHR ''/'']]"

definition encodedPatterns :: "string list" where
  "encodedPatterns = [''%2e%2e'', ''&#46;&#46;'', ''&#x2e;&#x2e;'']"

definition containsTraversalPattern :: "go_env \<Rightarrow> string \<Rightarrow> bool" where
  "containsTraversalPattern E path =
     (if strings_Contains path ''..'' then True
      else if list_ex (\<lambda>pattern. strings_Contains path pattern) traversalPatterns then True
      else list_ex (\<lambda>pattern. strings_Contains (strings_ToLower E path) (strings_ToLower E pattern))
             encodedPatterns)"

definition validatePath :: "go_env \<Rightarrow> string \<Rightarrow> string \<Rightarrow> path_error + string" where
  "validatePath E baseDir reqPath =
     (if filepath_IsAbs reqPath then Inl ErrAbsolutePath
      else if 2 \<le> length reqPath \<and> reqPath ! 1 = CHR '':'' then Inl ErrAbsolutePath
      else if strings_HasPrefix reqPath [CHR 0x5C, CHR 0x5C] \<or> strings_HasPrefix reqPath ''//''
      then Inl ErrUNCPath
      else
        (case decodeMultipleLayers E reqPath of
           Inl err \<Rightarrow> Inl (ErrInvalidEncoding err)
         | Inr decodedPath \<Rightarrow>
             (let normalizedPath = normalizeAndClean decodedPath;
                  slashed = strings_ReplaceAll normalizedPath [CHR 0x5C] ''/'';
                  trimmed = strings_TrimLeft slashed ''/''
              in if containsTraversalPattern E trimmed then Inl ErrTraversal
                 else
                   (let cleaned = filepath_Clean trimmed
                    in if containsTraversalPattern E cleaned then Inl ErrTraversal
                       else
                         (let cleanPath = (if cleaned = [] \<or> cleaned = ''.'' then [] else cleaned);
                              fullPath = filepath_Join [baseDir, cleanPath]
                          in case filepath_Abs E baseDir of
                               None \<Rightarrow> Inl ErrAbsBase
                             | Some absBasePath \<Rightarrow>
                                 (case filepath_Abs E fullPath of
                                    None \<Rightarrow> Inl ErrAbsFull
                                  | Some absFullPath \<Rightarrow>
                                      if absFullPath \<noteq> absBasePath
                                         \<and> \<not> strings_HasPrefix absFullPath (absBasePath @ ''/'')
                                      then Inl ErrEscapesBase
                                      else Inr absFullPath))))))"

subsection \<open>Running the resolver on concrete paths\<close>

text \<open>The defining equations the simplifier unfolds to run the model on a given input.\<close>

lemma decodeLoop_numeral:
  "decodeLoop E (numeral k) current =
     (let current' = decodeRound E current
      in if current' = current then current' else decodeLoop E (pred_numeral k) current')"
  by (simp add: numeral_eq_Suc Let_def)

lemmas lib_defs =
  byte_def byte_of_def char_of_def bit_Suc_0_iff strings_HasPrefix_def strings_HasSuffix_def
  strings_TrimPrefix_def strings_TrimSuffix_def strings_TrimLeft_def strings_TrimRight_def
  RuneError_def isCont_def contVal_def utf8_EncodeRune_def strings_ReplaceAll_def
  unicode_IsControl_def unicode_ToLower_def strings_Map_def asciiLower_def strings_ToLower_def
  cleanStep_def filepath_IsAbs_def filepath_Clean_def filepath_Join_def filepath_Dir_def
  filepath_ToSlash_def filepath_Abs_def ishex_def unhex_def url_QueryUnescape_def
  html_UnescapeString_def Let_def

lemmas resolver_defs =
  lib_defs decodeRound_def maxIterations_def decodeMultipleLayers_def decodeLoop_numeral
  contAt_def isValidUTF8Start_def normalizeAndClean_def traversalPatterns_def
  encodedPatterns_def containsTraversalPattern_def validatePath_def

text \<open>
  A sample environment for closed instances: entities are left alone, runes beyond ASCII
  have no lower case, and the working directory is \<open>/srv\<close>.
\<close>

definition sampleEnv :: go_env where
  "sampleEnv =
     \<lparr>html_unescapeEntities = (\<lambda>s. s), unicode_lowerTable = (\<lambda>r. r), os_Getwd = Some ''/srv''\<rparr>"

text \<open>
  Claim C10. \<^verbatim>\<open>decodeMultipleLayers\<close> returns a nil error for every input, so
  \<^verbatim>\<open>validatePath\<close> never returns its "invalid encoding in path" error; a string whose
  percent-escapes are malformed (and which holds no \<open>&\<close>) comes back unchanged.
\<close>

theorem decodeMultipleLayers_never_fails:
  "(\<exists>s. decodeMultipleLayers E input = Inr s)
   \<and> (\<forall>err. validatePath E baseDir reqPath \<noteq> Inl (ErrInvalidEncoding err))
   \<and> (url_QueryUnescape input = Inl bad \<and> CHR ''&'' \<notin> set input
        \<longrightarrow> decodeMultipleLayers E input = Inr input)"
proof (intro conjI allI impI)
  show "\<exists>s. decodeMultipleLayers E input = Inr s"
    by (simp add: decodeMultipleLayers_def)
next
  fix err
  show "validatePath E baseDir reqPath \<noteq> Inl (ErrInvalidEncoding err)"
    by (simp add: validatePath_def decodeMultipleLayers_def Let_def split: option.splits)
next
  assume a: "url_QueryUnescape input = Inl bad \<and> CHR ''&'' \<notin> set input"
  then have "decodeRound E input = input"
    by (simp add: decodeRound_def html_UnescapeString_def)
  then show "decodeMultipleLayers E input = Inr input"
    by (simp add: decodeMultipleLayers_def maxIterations_def decodeLoop_numeral)
qed

theorem decodeMultipleLayers_never_fails_witness:
  "url_QueryUnescape ''%zz'' = Inl ''%zz'' \<and> CHR ''&'' \<notin> set ''%zz''
   \<and> decodeMultipleLayers sampleEnv ''%zz'' = Inr ''%zz''
   \<and> validatePath sampleEnv ''/base'' ''%zz'' = Inr ''/base/%zz''"
proof -
  have h: "url_QueryUnescape ''%zz'' = Inl ''%zz'' \<and> CHR ''&'' \<notin> set ''%zz''"
    by (simp add: resolver_defs)
  have v: "validatePath sampleEnv ''/base'' ''%zz'' = Inr ''/base/%zz''"
    by (simp add: resolver_defs sampleEnv_def)
  from decodeMultipleLayers_never_fails [of sampleEnv "''%zz''" "''/base''" "''%zz''" "''%zz''"] h v
  show ?thesis by blast
qed

text \<open>
  Claim C2. The literal scenarios: \<open>../etc/passwd\<close>, \<open>%2e%2e%2f\<close> and \<open>a/b/../c/file.html\<close>
  under \<open>/base\<close> are rejected as traversal attempts; \<open>sub/dir/file.html\<close> resolves to
  \<open>/base/sub/dir/file.html\<close> and the empty path to \<open>/base\<close>.
\<close>

theorem validatePath_scenarios:
  "validatePath E ''/base'' ''../etc/passwd'' = Inl ErrTraversal
   \<and> validatePath E ''/base'' ''%2e%2e%2f'' = Inl ErrTraversal
   \<and> validatePath E ''/base'' ''a/b/../c/file.html'' = Inl ErrTraversal
   \<and> validatePath E ''/base'' ''sub/dir/file.html'' = Inr ''/base/sub/dir/file.html''
   \<and> validatePath E ''/base'' [] = Inr ''/base''"
proof (intro conjI)
  show "validatePath E ''/base'' ''../etc/passwd'' = Inl ErrTraversal"
    by (simp add: resolver_defs)
  show "validatePath E ''/base'' ''%2e%2e%2f'' = Inl ErrTraversal"
    by (simp add: resolver_defs)
  show "validatePath E ''/base'' ''a/b/../c/file.html'' = Inl ErrTraversal"
    by (simp add: resolver_defs)
  show "validatePath E ''/base'' ''sub/dir/file.html'' = Inr ''/base/sub/dir/file.html''"
    by (simp add: resolver_defs)
  show "validatePath E ''/base'' [] = Inr ''/base''"
    by (simp add: resolver_defs)
qed

theorem validatePath_scenarios_witness:
  "validatePath sampleEnv ''/base'' ''a/b/../c/file.html'' = Inl ErrTraversal
   \<and> validatePath sampleEnv ''/base'' ''sub/dir/file.html'' = Inr ''/base/sub/dir/file.html''"
  using validatePath_scenarios [of sampleEnv] by simp

subsection \<open>What \<^const>\<open>filepath_Clean\<close> returns\<close>

lemma splitOn_nonempty: "splitOn sep s \<noteq> []"
  by (induction s) (auto split: list.splits)

lemma splitOn_no_sep: "e \<in> set (splitOn sep s) \<Longrightarrow> sep \<notin> set e"
proof (induction s arbitrary: e)
  case Nil
  then show ?case by simp
next
  case (Cons c cs)
  then show ?case
    by (cases "splitOn sep cs") (auto split: if_splits)
qed

definition elemsOk :: "string list \<Rightarrow> bool" where
  "elemsOk es = list_all (\<lambda>e. e \<noteq> [] \<and> CHR ''/'' \<notin> set e) es"

lemma cleanStep_ok:
  "elemsOk out \<Longrightarrow> CHR ''/'' \<notin> set e \<Longrightarrow> elemsOk (cleanStep rooted out e)"
  by (auto simp: elemsOk_def cleanStep_def split: list.splits)

lemma foldl_cleanStep_ok:
  "elemsOk out \<Longrightarrow> list_all (\<lambda>e. CHR ''/'' \<notin> set e) es
     \<Longrightarrow> elemsOk (foldl (cleanStep rooted) out es)"
  by (induction es arbitrary: out) (simp_all add: cleanStep_ok)

lemma clean_elems_ok: "elemsOk (foldl (cleanStep rooted) [] (splitOn CHR ''/'' path))"
  by (rule foldl_cleanStep_ok) (auto simp: elemsOk_def list_all_iff dest: splitOn_no_sep)

lemma hd_last_not_in:
  "x \<noteq> [] \<Longrightarrow> c \<notin> set x \<Longrightarrow> hd x \<noteq> c \<and> last x \<noteq> c"
  using hd_in_set [of x] last_in_set [of x] by auto

lemma join_ends:
  "elemsOk xs \<Longrightarrow> xs \<noteq> [] \<Longrightarrow>
     strings_Join xs ''/'' \<noteq> [] \<and> hd (strings_Join xs ''/'') \<noteq> CHR ''/''
     \<and> last (strings_Join xs ''/'') \<noteq> CHR ''/''"
proof (induction xs "''/''" rule: strings_Join.induct)
  case 1
  then show ?case by simp
next
  case (2 x)
  then show ?case
    using hd_last_not_in [of x "CHR ''/''"] by (simp add: elemsOk_def)
next
  case (3 x y ys)
  then have x: "x \<noteq> []" "hd x \<noteq> CHR ''/''"
    using hd_last_not_in [of x "CHR ''/''"] by (simp_all add: elemsOk_def)
  from 3 have r: "strings_Join (y # ys) ''/'' \<noteq> []"
      "last (strings_Join (y # ys) ''/'') \<noteq> CHR ''/''"
    by (simp_all add: elemsOk_def)
  from x r show ?case by simp
qed

lemma elemsOk_rev: "elemsOk (rev xs) = elemsOk xs"
  by (simp add: elemsOk_def list_all_iff)

lemma filepath_Clean_shape:
  assumes "path \<noteq> []"
  shows "\<exists>out. elemsOk out \<and> filepath_Clean path =
           (if filepath_IsAbs path then CHR ''/'' # strings_Join out ''/''
            else if out = [] then ''.'' else strings_Join out ''/'')"
proof -
  define out where "out = rev (foldl (cleanStep (filepath_IsAbs path)) [] (splitOn CHR ''/'' path))"
  have "elemsOk out"
    unfolding out_def by (simp add: elemsOk_rev clean_elems_ok)
  moreover have "filepath_Clean path =
           (if filepath_IsAbs path then CHR ''/'' # strings_Join out ''/''
            else if out = [] then ''.'' else strings_Join out ''/'')"
    using assms by (simp add: filepath_Clean_def Let_def out_def)
  ultimately show ?thesis by blast
qed

lemma filepath_Clean_nonempty: "filepath_Clean path \<noteq> []"
proof (cases "path = []")
  case True
  then show ?thesis by (simp add: filepath_Clean_def)
next
  case False
  from filepath_Clean_shape [OF False] obtain out where
    ok: "elemsOk out" and
    c: "filepath_Clean path =
           (if filepath_IsAbs path then CHR ''/'' # strings_Join out ''/''
            else if out = [] then ''.'' else strings_Join out ''/'')"
    by blast
  show ?thesis
    using c join_ends [OF ok] by (auto split: if_splits)
qed

lemma filepath_Clean_rooted:
  assumes "filepath_IsAbs (filepath_Clean path)"
  shows "filepath_IsAbs path"
proof (rule ccontr)
  assume n: "\<not> filepath_IsAbs path"
  then have ne: "path \<noteq> []"
    using assms by (auto simp: filepath_Clean_def filepath_IsAbs_def strings_HasPrefix_def)
  from filepath_Clean_shape [OF ne] n obtain out where
    ok: "elemsOk out" and
    c: "filepath_Clean path = (if out = [] then ''.'' else strings_Join out ''/'')"
    by auto
  show False
  proof (cases "out = []")
    case True
    with assms c show ?thesis
      by (simp add: filepath_IsAbs_def strings_HasPrefix_def)
  next
    case False
    then have j: "strings_Join out ''/'' \<noteq> []" "hd (strings_Join out ''/'') \<noteq> CHR ''/''"
      using join_ends [OF ok] by simp_all
    with assms c False show ?thesis
      by (cases "strings_Join out ''/''") (auto simp: filepath_IsAbs_def strings_HasPrefix_def)
  qed
qed

lemma filepath_Join_cases:
  "filepath_Join es = [] \<or> (\<exists>z. filepath_Join es = filepath_Clean z)"
  by (auto simp: filepath_Join_def split: list.splits)

lemma TrimLeft_not_rooted: "\<not> filepath_IsAbs (strings_TrimLeft s ''/'')"
  by (induction s) (simp_all add: filepath_IsAbs_def strings_HasPrefix_def strings_TrimLeft_def)

lemma filepath_Abs_shape:
  assumes "filepath_Abs E path = Some p"
  shows "(filepath_IsAbs path \<and> p = filepath_Clean path)
         \<or> (\<not> filepath_IsAbs path \<and> (\<exists>wd. os_Getwd E = Some wd \<and> p = filepath_Join [wd, path]))"
  using assms by (auto simp: filepath_Abs_def split: if_splits option.splits)

subsection \<open>Paths made of names\<close>

text \<open>
  A plain path: relative, every element a name (not empty, not \<open>.\<close>, not \<open>..\<close>).
  \<^verbatim>\<open>filepath.Clean\<close> returns such a path as it is.
\<close>

definition plainPath :: "string \<Rightarrow> bool" where
  "plainPath p = list_all (\<lambda>e. e \<noteq> [] \<and> e \<noteq> ''.'' \<and> e \<noteq> ''..'') (splitOn CHR ''/'' p)"

lemma splitOn_append:
  "splitOn sep (a @ sep # b) = splitOn sep a @ splitOn sep b"
proof (induction a)
  case Nil
  then show ?case by simp
next
  case (Cons c a)
  obtain x xs where x: "splitOn sep a = x # xs"
    using splitOn_nonempty [of sep a] by (cases "splitOn sep a") auto
  with Cons show ?case by simp
qed

lemma strings_Join_splitOn: "strings_Join (splitOn sep p) [sep] = p"
proof (induction p)
  case Nil
  then show ?case by simp
next
  case (Cons c p)
  obtain x xs where x: "splitOn sep p = x # xs"
    using splitOn_nonempty [of sep p] by (cases "splitOn sep p") auto
  show ?case
  proof (cases "c = sep")
    case True
    with Cons x show ?thesis by simp
  next
    case False
    with Cons x show ?thesis by (cases xs) auto
  qed
qed

lemma splitOn_single: "sep \<notin> set x \<Longrightarrow> splitOn sep x = [x]"
  by (induction x) auto

lemma splitOn_Join:
  "xs \<noteq> [] \<Longrightarrow> list_all (\<lambda>e. sep \<notin> set e) xs \<Longrightarrow> splitOn sep (strings_Join xs [sep]) = xs"
proof (induction xs "[sep]" rule: strings_Join.induct)
  case 1
  then show ?case by simp
next
  case (2 x)
  then show ?case by (simp add: splitOn_single)
next
  case (3 x y ys)
  then show ?case by (simp add: splitOn_append splitOn_single)
qed

lemma strings_Join_append:
  "xs \<noteq> [] \<Longrightarrow> ys \<noteq> [] \<Longrightarrow>
     strings_Join (xs @ ys) sep = strings_Join xs sep @ sep @ strings_Join ys sep"
proof (induction xs sep rule: strings_Join.induct)
  case (1 sep)
  then show ?case by simp
next
  case (2 x sep)
  then show ?case by (cases ys) simp_all
next
  case (3 x y ys' sep)
  then show ?case by simp
qed

lemma foldl_cleanStep_names:
  "list_all (\<lambda>e. e \<noteq> [] \<and> e \<noteq> ''.'' \<and> e \<noteq> ''..'') es \<Longrightarrow>
     foldl (cleanStep r) acc es = rev es @ acc"
  by (induction es arbitrary: acc) (simp_all add: cleanStep_def)

lemma plainPath_nonempty: "plainPath p \<Longrightarrow> p \<noteq> []"
  by (auto simp: plainPath_def)

lemma plainPath_not_rooted: "plainPath p \<Longrightarrow> \<not> prefix ''/'' p"
  by (cases p) (auto simp: plainPath_def)



lemma filepath_Clean_plain:
  assumes "plainPath p"
  shows "filepath_Clean p = p"
proof -
  have "foldl (cleanStep False) [] (splitOn CHR ''/'' p) = rev (splitOn CHR ''/'' p)"
    using assms foldl_cleanStep_names [of "splitOn CHR ''/'' p" False "[]"]
    by (simp add: plainPath_def)
  then show ?thesis
    using plainPath_nonempty [OF assms] plainPath_not_rooted [OF assms]
      splitOn_nonempty [of "CHR ''/''" p] strings_Join_splitOn [of "CHR ''/''" p]
    by (simp add: filepath_Clean_def filepath_IsAbs_def strings_HasPrefix_def Let_def)
qed


subsection \<open>Cleaning a cleaned path\<close>

text \<open>
  The stack of \<^const>\<open>filepath_Clean\<close> holds names, and \<open>..\<close> elements only in a relative
  path. Cleaning a relative path before it is appended to another path changes nothing in
  what the whole path cleans to.
\<close>

lemma cleanStep_simps:
  "cleanStep r out [] = out"
  "cleanStep r out ''.'' = out"
  "e \<noteq> [] \<Longrightarrow> e \<noteq> ''.'' \<Longrightarrow> e \<noteq> ''..'' \<Longrightarrow> cleanStep r out e = e # out"
  "cleanStep r (e0 # below) ''..'' = (if e0 = ''..'' then ''..'' # e0 # below else below)"
  "cleanStep r [] ''..'' = (if r then [] else [''..''])"
  by (simp_all add: cleanStep_def)

lemma cleanStep_no_dot:
  "list_all (\<lambda>e. e \<noteq> [] \<and> e \<noteq> ''.'') out \<Longrightarrow> list_all (\<lambda>e. e \<noteq> [] \<and> e \<noteq> ''.'') (cleanStep r out e)"
  by (auto simp: cleanStep_def split: list.splits)

lemma foldl_cleanStep_no_dot:
  "list_all (\<lambda>e. e \<noteq> [] \<and> e \<noteq> ''.'') out
     \<Longrightarrow> list_all (\<lambda>e. e \<noteq> [] \<and> e \<noteq> ''.'') (foldl (cleanStep r) out es)"
  by (induction es arbitrary: out) (simp_all add: cleanStep_no_dot)

lemma foldl_cleanStep_rooted_names:
  "list_all (\<lambda>e. e \<noteq> [] \<and> e \<noteq> ''.'' \<and> e \<noteq> ''..'') out
     \<Longrightarrow> list_all (\<lambda>e. e \<noteq> [] \<and> e \<noteq> ''.'' \<and> e \<noteq> ''..'') (foldl (cleanStep True) out es)"
proof (induction es arbitrary: out)
  case Nil
  then show ?case by simp
next
  case (Cons e es)
  have "list_all (\<lambda>e. e \<noteq> [] \<and> e \<noteq> ''.'' \<and> e \<noteq> ''..'') (cleanStep True out e)"
    using Cons.prems by (cases out) (auto simp: cleanStep_def)
  from Cons.IH [OF this] show ?case by simp
qed

lemma reclean_stack:
  "foldl (cleanStep r) acc (rev (foldl (cleanStep False) [] es)) = foldl (cleanStep r) acc es"
proof (induction es rule: rev_induct)
  case Nil
  then show ?case by simp
next
  case (snoc e es)
  define S where "S = foldl (cleanStep False) [] es"
  define X where "X = foldl (cleanStep r) acc es"
  have ok: "list_all (\<lambda>e. e \<noteq> [] \<and> e \<noteq> ''.'') S"
    unfolding S_def by (rule foldl_cleanStep_no_dot) simp
  have IH: "foldl (cleanStep r) acc (rev S) = X"
    using snoc by (simp add: S_def X_def)
  have goal: "foldl (cleanStep r) acc (rev (cleanStep False S e)) = cleanStep r X e"
  proof (cases "e = [] \<or> e = ''.''")
    case True
    then show ?thesis using IH by (auto simp: cleanStep_simps)
  next
    case False
    show ?thesis
    proof (cases "e = ''..''")
      case up: True
      show ?thesis
      proof (cases S)
        case Nil
        with up IH show ?thesis by (simp add: cleanStep_simps)
      next
        case (Cons e0 below)
        show ?thesis
        proof (cases "e0 = ''..''")
          case True
          with up Cons IH show ?thesis by (simp add: cleanStep_simps)
        next
          case ne: False
          from ok Cons have e0: "e0 \<noteq> []" "e0 \<noteq> ''.''" by simp_all
          have "X = e0 # foldl (cleanStep r) acc (rev below)"
            using IH [symmetric] Cons e0 ne by (simp add: cleanStep_simps)
          with up Cons ne show ?thesis
            by (simp add: cleanStep_simps)
        qed
      qed
    next
      case name: False
      with False IH show ?thesis by (simp add: cleanStep_simps)
    qed
  qed
  then show ?case by (simp add: S_def X_def)
qed

definition renderStack :: "bool \<Rightarrow> string list \<Rightarrow> string" where
  "renderStack rooted out =
     (if rooted then CHR ''/'' # strings_Join (rev out) ''/''
      else if out = [] then ''.'' else strings_Join (rev out) ''/'')"

lemma filepath_Clean_render:
  "path \<noteq> [] \<Longrightarrow>
     filepath_Clean path =
       renderStack (filepath_IsAbs path)
         (foldl (cleanStep (filepath_IsAbs path)) [] (splitOn CHR ''/'' path))"
  by (simp add: filepath_Clean_def renderStack_def Let_def)

lemma splitOn_render_rel:
  assumes "elemsOk out"
  shows "foldl (cleanStep r) acc (splitOn CHR ''/'' (renderStack False out)) = foldl (cleanStep r) acc (rev out)"
proof (cases "out = []")
  case True
  then show ?thesis by (simp add: renderStack_def cleanStep_simps)
next
  case False
  have "splitOn CHR ''/'' (strings_Join (rev out) ''/'') = rev out"
    using splitOn_Join [of "rev out" "CHR ''/''"] False assms
    by (simp add: elemsOk_def list_all_iff)
  with False show ?thesis by (simp add: renderStack_def)
qed

lemma stack_Clean_rel:
  assumes "\<not> filepath_IsAbs x"
  shows "foldl (cleanStep r) acc (splitOn CHR ''/'' (filepath_Clean x))
           = foldl (cleanStep r) acc (splitOn CHR ''/'' x)"
proof (cases "x = []")
  case True
  then show ?thesis by (simp add: filepath_Clean_def cleanStep_simps)
next
  case False
  show ?thesis
    unfolding filepath_Clean_render [OF False]
    using assms splitOn_render_rel [OF clean_elems_ok, of r acc False x] reclean_stack [of r acc]
    by simp
qed

lemma stack_Clean_abs:
  assumes "filepath_IsAbs x"
  shows "foldl (cleanStep True) [] (splitOn CHR ''/'' (filepath_Clean x))
           = foldl (cleanStep True) [] (splitOn CHR ''/'' x)"
proof -
  define out where "out = foldl (cleanStep True) [] (splitOn CHR ''/'' x)"
  from assms have ne: "x \<noteq> []"
    by (auto simp: filepath_IsAbs_def strings_HasPrefix_def)
  have c: "filepath_Clean x = CHR ''/'' # strings_Join (rev out) ''/''"
    using assms by (simp add: filepath_Clean_render [OF ne] renderStack_def out_def)
  have names: "list_all (\<lambda>e. e \<noteq> [] \<and> e \<noteq> ''.'' \<and> e \<noteq> ''..'') out"
    unfolding out_def by (rule foldl_cleanStep_rooted_names) simp
  have ok: "elemsOk out"
    unfolding out_def by (rule clean_elems_ok)
  show ?thesis
  proof (cases "out = []")
    case True
    with c show ?thesis by (simp add: out_def [symmetric] cleanStep_simps)
  next
    case False
    have s: "splitOn CHR ''/'' (strings_Join (rev out) ''/'') = rev out"
      using splitOn_Join [of "rev out" "CHR ''/''"] False ok
      by (simp add: elemsOk_def list_all_iff)
    have "foldl (cleanStep True) [] (rev out) = rev (rev out) @ []"
      by (rule foldl_cleanStep_names) (use names in \<open>simp add: list_all_iff\<close>)
    with c s show ?thesis by (simp add: out_def [symmetric] cleanStep_simps)
  qed
qed

lemma strings_Contains_sublist: "strings_Contains s sub = sublist sub s"
  by (induction s) (simp_all add: sublist_Cons_right)

lemma filepath_Clean_idem: "filepath_Clean (filepath_Clean x) = filepath_Clean x"
proof (cases "x = []")
  case True
  then show ?thesis by (simp add: filepath_Clean_def filepath_IsAbs_def strings_HasPrefix_def cleanStep_simps)
next
  case False
  show ?thesis
  proof (cases "filepath_IsAbs x")
    case True
    then have a: "filepath_IsAbs (filepath_Clean x)"
      using False by (simp add: filepath_Clean_def filepath_IsAbs_def strings_HasPrefix_def Let_def)
    show ?thesis
      using filepath_Clean_render [OF filepath_Clean_nonempty, of x] a True
        stack_Clean_abs [OF True] filepath_Clean_render [OF False]
      by simp
  next
    case rel: False
    then have a: "\<not> filepath_IsAbs (filepath_Clean x)"
      using filepath_Clean_rooted by blast
    show ?thesis
      using filepath_Clean_render [OF filepath_Clean_nonempty, of x] a rel
        stack_Clean_rel [OF rel, of False "[]"] filepath_Clean_render [OF False]
      by simp
  qed
qed

lemma sublist_Join: "e \<in> set xs \<Longrightarrow> sublist e (strings_Join xs sep)"
proof (induction xs sep rule: strings_Join.induct)
  case (1 sep)
  then show ?case by simp
next
  case (2 x sep)
  then show ?case by simp
next
  case (3 x y ys sep)
  show ?case
  proof (cases "e = x")
    case True
    then show ?thesis by (simp add: prefix_imp_sublist)
  next
    case False
    with 3 have "sublist e (strings_Join (y # ys) sep)" by simp
    then obtain ps ss where "strings_Join (y # ys) sep = ps @ e @ ss"
      by (auto simp: sublist_def)
    then have "strings_Join (x # y # ys) sep = (x @ sep @ ps) @ e @ ss"
      by simp
    then show ?thesis
      unfolding sublist_def by blast
  qed
qed

text \<open>A cleaned relative path without two dots in a row is \<open>.\<close> or a plain path.\<close>

lemma clean_rel_plain:
  assumes "\<not> filepath_IsAbs x" and "\<not> sublist ''..'' (filepath_Clean x)"
  shows "filepath_Clean x = ''.'' \<or> plainPath (filepath_Clean x)"
proof (cases "x = []")
  case True
  then show ?thesis by (simp add: filepath_Clean_def)
next
  case False
  define out where "out = foldl (cleanStep False) [] (splitOn CHR ''/'' x)"
  have c: "filepath_Clean x = renderStack False out"
    using assms(1) by (simp add: filepath_Clean_render [OF False] out_def)
  have ok: "elemsOk out"
    unfolding out_def by (rule clean_elems_ok)
  have nd: "list_all (\<lambda>e. e \<noteq> [] \<and> e \<noteq> ''.'') out"
    unfolding out_def by (rule foldl_cleanStep_no_dot) simp
  show ?thesis
  proof (cases "out = []")
    case True
    with c show ?thesis by (simp add: renderStack_def)
  next
    case ne: False
    have j: "filepath_Clean x = strings_Join (rev out) ''/''"
      using c ne by (simp add: renderStack_def)
    have "e \<noteq> ''..''" if "e \<in> set out" for e
    proof
      assume "e = ''..''"
      with that sublist_Join [of e "rev out" "''/''"] j assms(2) show False by simp
    qed
    with nd have names: "list_all (\<lambda>e. e \<noteq> [] \<and> e \<noteq> ''.'' \<and> e \<noteq> ''..'') (rev out)"
      by (auto simp: list_all_iff)
    have "splitOn CHR ''/'' (strings_Join (rev out) ''/'') = rev out"
      using splitOn_Join [of "rev out" "CHR ''/''"] ne ok
      by (simp add: elemsOk_def list_all_iff)
    with names j show ?thesis by (simp add: plainPath_def)
  qed
qed

lemma stack_plain:
  assumes "c = [] \<or> plainPath c"
  shows "foldl (cleanStep r) acc (splitOn CHR ''/'' c) = rev (if c = [] then [] else splitOn CHR ''/'' c) @ acc"
proof (cases "c = []")
  case True
  then show ?thesis by (simp add: cleanStep_simps)
next
  case False
  with assms have "plainPath c" by simp
  then show ?thesis
    using False foldl_cleanStep_names [of "splitOn CHR ''/'' c" r acc] by (simp add: plainPath_def)
qed

lemma stack_append:
  "foldl (cleanStep r) acc (splitOn CHR ''/'' (a @ ''/'' @ b))
     = foldl (cleanStep r) (foldl (cleanStep r) acc (splitOn CHR ''/'' a)) (splitOn CHR ''/'' b)"
  by (simp add: splitOn_append)

lemma IsAbs_append: "a \<noteq> [] \<Longrightarrow> filepath_IsAbs (a @ b) = filepath_IsAbs a"
  by (cases a) (simp_all add: filepath_IsAbs_def strings_HasPrefix_def)

lemma IsAbs_Clean: "filepath_IsAbs (filepath_Clean x) = filepath_IsAbs x"
proof (cases "x = []")
  case True
  then show ?thesis by (simp add: filepath_Clean_def filepath_IsAbs_def strings_HasPrefix_def)
next
  case False
  then show ?thesis
    using filepath_Clean_rooted [of x]
    by (auto simp: filepath_Clean_def filepath_IsAbs_def strings_HasPrefix_def Let_def)
qed

lemma filepath_Join_two:
  "a \<noteq> [] \<Longrightarrow> filepath_Join [a, b] = filepath_Clean (a @ ''/'' @ b)"
  "filepath_Join [[], b] = (if b = [] then [] else filepath_Clean b)"
  by (cases b; simp add: filepath_Join_def)+

text \<open>
  The absolute form of the base directory joined with a plain path: the stack of the base
  with the names of the path on top.
\<close>

lemma abs_join_stack:
  assumes base: "filepath_Abs E b = Some root"
    and full: "filepath_Abs E (filepath_Join [b, c]) = Some p"
    and c: "c = [] \<or> plainPath c"
  shows "(root = [] \<and> \<not> filepath_IsAbs p)
         \<or> (\<exists>r St. elemsOk St \<and> root = renderStack r St
               \<and> p = renderStack r (rev (if c = [] then [] else splitOn CHR ''/'' c) @ St))"
proof -
  define ns where "ns = (if c = [] then [] else splitOn CHR ''/'' c)"
  have K: "foldl (cleanStep r) acc (splitOn CHR ''/'' c) = rev ns @ acc" for r acc
    unfolding ns_def using c by (rule stack_plain)
  have crel: "\<not> filepath_IsAbs c"
    using c plainPath_not_rooted [of c]
    by (auto simp: filepath_IsAbs_def strings_HasPrefix_def)
  have cclean: "c \<noteq> [] \<Longrightarrow> filepath_Clean c = c"
    using c filepath_Clean_plain by auto
  show ?thesis
  proof (cases "filepath_IsAbs b")
    case True
    then have bne: "b \<noteq> []"
      by (auto simp: filepath_IsAbs_def strings_HasPrefix_def)
    define Sb where "Sb = foldl (cleanStep True) [] (splitOn CHR ''/'' b)"
    have root: "root = renderStack True Sb"
      using base True by (simp add: filepath_Abs_def filepath_Clean_render [OF bne] Sb_def)
    have abc: "filepath_IsAbs (b @ ''/'' @ c)"
      using True bne by (simp add: IsAbs_append)
    have fp: "filepath_Join [b, c] = filepath_Clean (b @ ''/'' @ c)"
      using bne by (rule filepath_Join_two)
    have "p = filepath_Clean (filepath_Clean (b @ ''/'' @ c))"
      using full abc by (simp add: fp filepath_Abs_def IsAbs_Clean)
    also have "\<dots> = filepath_Clean (b @ ''/'' @ c)"
      by (rule filepath_Clean_idem)
    also have "\<dots> = renderStack True (foldl (cleanStep True) [] (splitOn CHR ''/'' (b @ ''/'' @ c)))"
      using abc by (simp add: filepath_Clean_render)
    also have "\<dots> = renderStack True (rev ns @ Sb)"
      by (simp only: stack_append K Sb_def)
    finally have "p = renderStack True (rev ns @ Sb)" .
    moreover have "elemsOk Sb"
      unfolding Sb_def by (rule clean_elems_ok)
    ultimately show ?thesis
      using root unfolding ns_def by blast
  next
    case False
    with base obtain w where w: "os_Getwd E = Some w" and root: "root = filepath_Join [w, b]"
      by (auto simp: filepath_Abs_def split: option.splits)
    have frel: "\<not> filepath_IsAbs (filepath_Join [b, c])"
    proof (cases "b = []")
      case True
      then show ?thesis
        using crel cclean by (simp add: filepath_Join_two filepath_IsAbs_def strings_HasPrefix_def)
    next
      case bne: False
      then show ?thesis
        using False by (simp add: filepath_Join_two IsAbs_Clean IsAbs_append)
    qed
    with full w have p: "p = filepath_Join [w, filepath_Join [b, c]]"
      by (simp add: filepath_Abs_def)
    show ?thesis
    proof (cases "b = []")
      case bne: False
      have fp: "filepath_Join [b, c] = filepath_Clean (b @ ''/'' @ c)"
        using bne by (rule filepath_Join_two)
      have rel: "\<not> filepath_IsAbs (b @ ''/'' @ c)"
        using False bne by (simp add: IsAbs_append)
      show ?thesis
      proof (cases "w = []")
        case wne: False
        define r where "r = filepath_IsAbs w"
        define St where "St = foldl (cleanStep r) [] (splitOn CHR ''/'' (w @ ''/'' @ b))"
        have "root = filepath_Clean (w @ ''/'' @ b)"
          using root wne by (simp add: filepath_Join_two)
        then have root': "root = renderStack r St"
          using wne by (simp add: filepath_Clean_render IsAbs_append r_def St_def)
        have "p = filepath_Clean (w @ ''/'' @ filepath_Clean (b @ ''/'' @ c))"
          using p wne by (simp add: fp filepath_Join_two)
        also have "\<dots> = renderStack r
              (foldl (cleanStep r) [] (splitOn CHR ''/'' (w @ ''/'' @ filepath_Clean (b @ ''/'' @ c))))"
          using wne by (simp add: filepath_Clean_render IsAbs_append r_def)
        also have "\<dots> = renderStack r (rev ns @ St)"
          by (simp only: stack_append stack_Clean_rel [OF rel] K St_def)
        finally have "p = renderStack r (rev ns @ St)" .
        moreover have "elemsOk St"
          unfolding St_def by (rule clean_elems_ok)
        ultimately show ?thesis
          using root' unfolding ns_def by blast
      next
        case True
        define Sb where "Sb = foldl (cleanStep False) [] (splitOn CHR ''/'' b)"
        have root': "root = renderStack False Sb"
          using root True bne False by (simp add: filepath_Join_two filepath_Clean_render Sb_def)
        have "p = filepath_Clean (filepath_Clean (b @ ''/'' @ c))"
          using p True by (simp add: fp filepath_Join_two filepath_Clean_nonempty)
        also have "\<dots> = filepath_Clean (b @ ''/'' @ c)"
          by (rule filepath_Clean_idem)
        also have "\<dots> = renderStack False (foldl (cleanStep False) [] (splitOn CHR ''/'' (b @ ''/'' @ c)))"
          using rel bne by (simp add: filepath_Clean_render)
        also have "\<dots> = renderStack False (rev ns @ Sb)"
          by (simp only: stack_append K Sb_def)
        finally have "p = renderStack False (rev ns @ Sb)" .
        moreover have "elemsOk Sb"
          unfolding Sb_def by (rule clean_elems_ok)
        ultimately show ?thesis
          using root' unfolding ns_def by blast
      qed
    next
      case True
      have fp: "filepath_Join [b, c] = c"
        using True cclean by (simp add: filepath_Join_two)
      show ?thesis
      proof (cases "w = []")
        case wne: False
        define r where "r = filepath_IsAbs w"
        define Sw where "Sw = foldl (cleanStep r) [] (splitOn CHR ''/'' w)"
        have "root = filepath_Clean (w @ ''/'' @ [])"
          using root wne True by (simp add: filepath_Join_two)
        also have "\<dots> = renderStack r (foldl (cleanStep r) [] (splitOn CHR ''/'' (w @ ''/'' @ [])))"
          using wne by (simp add: filepath_Clean_render IsAbs_append r_def)
        also have "\<dots> = renderStack r Sw"
          by (simp only: stack_append Sw_def) (simp add: cleanStep_simps)
        finally have root': "root = renderStack r Sw" .
        have "p = filepath_Clean (w @ ''/'' @ c)"
          using p wne by (simp add: fp filepath_Join_two)
        also have "\<dots> = renderStack r (foldl (cleanStep r) [] (splitOn CHR ''/'' (w @ ''/'' @ c)))"
          using wne by (simp add: filepath_Clean_render IsAbs_append r_def)
        also have "\<dots> = renderStack r (rev ns @ Sw)"
          by (simp only: stack_append K Sw_def)
        finally have "p = renderStack r (rev ns @ Sw)" .
        moreover have "elemsOk Sw"
          unfolding Sw_def by (rule clean_elems_ok)
        ultimately show ?thesis
          using root' unfolding ns_def by blast
      next
        case wempty: True
        have "root = []"
          using root True wempty by (simp add: filepath_Join_two)
        moreover have "p = c"
          using p wempty cclean by (simp add: fp filepath_Join_two)
        ultimately show ?thesis
          using crel by simp
      qed
    qed
  qed
qed

lemma render_extend:
  assumes "elemsOk St" and "plainPath c"
    and inside: "renderStack r (rev (splitOn CHR ''/'' c) @ St) = renderStack r St
                 \<or> prefix (renderStack r St @ ''/'') (renderStack r (rev (splitOn CHR ''/'' c) @ St))"
  shows "renderStack r (rev (splitOn CHR ''/'' c) @ St) = renderStack r St @ ''/'' @ c"
proof -
  have j: "strings_Join (splitOn CHR ''/'' c) ''/'' = c"
    by (rule strings_Join_splitOn)
  have ne: "splitOn CHR ''/'' c \<noteq> []"
    by (rule splitOn_nonempty)
  have cne: "c \<noteq> []" and crel: "\<not> prefix ''/'' c"
    using assms(2) plainPath_nonempty plainPath_not_rooted by blast+
  show ?thesis
  proof (cases "St = []")
    case True
    show ?thesis
    proof (cases r)
      case True
      with \<open>St = []\<close> inside j cne crel show ?thesis
        by (cases c) (auto simp: renderStack_def)
    next
      case False
      have nd: "c \<noteq> ''.''" "\<not> prefix ''./'' c"
        using assms(2) by (auto simp: plainPath_def prefix_def)
      from False \<open>St = []\<close> inside j ne nd show ?thesis
        by (auto simp: renderStack_def)
    qed
  next
    case False
    have "strings_Join (rev St @ splitOn CHR ''/'' c) ''/''
            = strings_Join (rev St) ''/'' @ ''/'' @ strings_Join (splitOn CHR ''/'' c) ''/''"
      using False ne by (intro strings_Join_append) simp_all
    with False j show ?thesis
      by (simp add: renderStack_def)
  qed
qed

lemma validatePath_success:
  assumes "validatePath E baseDir reqPath = Inr p"
  shows "\<exists>root cleaned. filepath_Abs E baseDir = Some root
           \<and> \<not> filepath_IsAbs cleaned \<and> \<not> sublist ''..'' (filepath_Clean cleaned)
           \<and> filepath_Abs E (filepath_Join [baseDir,
                 if filepath_Clean cleaned = ''.'' then [] else filepath_Clean cleaned]) = Some p
           \<and> (p = root \<or> prefix (root @ ''/'') p)"
proof -
  let ?t = "strings_ReplaceAll (normalizeAndClean (decodeLoop E maxIterations reqPath)) [CHR 0x5C] ''/''"
  let ?c = "strings_TrimLeft ?t ''/''"
  let ?fullPath = "filepath_Join [baseDir,
                 if filepath_Clean ?c = ''.'' then [] else filepath_Clean ?c]"
  have v: "\<not> strings_Contains (filepath_Clean ?c) ''..'' \<and>
          (case filepath_Abs E baseDir of
             None \<Rightarrow> False
           | Some root \<Rightarrow>
               filepath_Abs E ?fullPath = Some p \<and> (p = root \<or> prefix (root @ ''/'') p))"
    using assms unfolding validatePath_def decodeMultipleLayers_def Let_def containsTraversalPattern_def
    by (simp add: filepath_Clean_nonempty strings_HasPrefix_def
          split: if_splits option.splits)
  then obtain root where
    "filepath_Abs E baseDir = Some root" "filepath_Abs E ?fullPath = Some p"
    "p = root \<or> prefix (root @ ''/'') p"
    by (cases "filepath_Abs E baseDir") auto
  moreover have "\<not> sublist ''..'' (filepath_Clean ?c)"
    using v by (simp add: strings_Contains_sublist)
  moreover have "\<not> filepath_IsAbs ?c"
    by (rule TrimLeft_not_rooted)
  ultimately show ?thesis by blast
qed

text \<open>
  Claim C1. Whatever the root directory and the request path, a successful result of
  \<^verbatim>\<open>validatePath\<close> is the absolute form of the root, or the absolute form of the root
  followed by the separator and by a path made of names only (no empty element, no \<open>.\<close>, no
  \<open>..\<close>): a proper extension that cannot leave the root. The result is a cleaned path.
\<close>

theorem validatePath_contained:
  assumes "validatePath E baseDir reqPath = Inr p"
  shows "\<exists>root. filepath_Abs E baseDir = Some root
           \<and> (p = root \<or> strict_prefix (root @ ''/'') p)
           \<and> (p = root \<or> (\<exists>rel. plainPath rel \<and> p = root @ ''/'' @ rel))
           \<and> (p = [] \<or> filepath_Clean p = p)"
proof -
  from validatePath_success [OF assms] obtain root cleaned where
    base: "filepath_Abs E baseDir = Some root" and
    rel: "\<not> filepath_IsAbs cleaned" and
    nodots: "\<not> sublist ''..'' (filepath_Clean cleaned)" and
    full: "filepath_Abs E (filepath_Join [baseDir,
                 if filepath_Clean cleaned = ''.'' then [] else filepath_Clean cleaned]) = Some p" and
    inside: "p = root \<or> prefix (root @ ''/'') p"
    by blast
  define c where "c = (if filepath_Clean cleaned = ''.'' then [] else filepath_Clean cleaned)"
  have c: "c = [] \<or> plainPath c"
    using clean_rel_plain [OF rel nodots] by (auto simp: c_def)
  have full': "filepath_Abs E (filepath_Join [baseDir, c]) = Some p"
    using full by (simp add: c_def)
  have shape: "p = root \<or> (plainPath c \<and> p = root @ ''/'' @ c)"
  proof -
    from abs_join_stack [OF base full' c]
    consider "root = []" "\<not> filepath_IsAbs p"
      | r St where "elemsOk St" "root = renderStack r St"
          "p = renderStack r (rev (if c = [] then [] else splitOn CHR ''/'' c) @ St)"
      by blast
    then show ?thesis
    proof cases
      case 1
      with inside show ?thesis
        by (auto simp: filepath_IsAbs_def strings_HasPrefix_def)
    next
      case 2
      show ?thesis
      proof (cases "c = []")
        case True
        with 2 show ?thesis by simp
      next
        case False
        with c have pc: "plainPath c" by simp
        from 2 False have p: "p = renderStack r (rev (splitOn CHR ''/'' c) @ St)" by simp
        from render_extend [OF 2(1) pc, of r] inside p 2(2)
        have "p = root @ ''/'' @ c" by simp
        with pc show ?thesis by simp
      qed
    qed
  qed
  have strict: "p = root \<or> strict_prefix (root @ ''/'') p"
    using shape plainPath_nonempty [of c] by (auto simp: strict_prefix_def)
  have clean: "p = [] \<or> filepath_Clean p = p"
  proof -
    have "p = [] \<or> (\<exists>z. p = filepath_Clean z)"
      using filepath_Abs_shape [OF full']
        filepath_Join_cases [of "[the (os_Getwd E), filepath_Join [baseDir, c]]"]
      by auto
    then show ?thesis
      by (auto simp: filepath_Clean_idem)
  qed
  from base shape strict clean show ?thesis by blast
qed

theorem validatePath_contained_witness:
  "validatePath sampleEnv ''/base'' ''sub/dir/file.html'' = Inr ''/base/sub/dir/file.html''
   \<and> filepath_Abs sampleEnv ''/base'' = Some ''/base''
   \<and> strict_prefix ''/base/'' ''/base/sub/dir/file.html''
   \<and> plainPath ''sub/dir/file.html''
   \<and> filepath_Clean ''/base/sub/dir/file.html'' = ''/base/sub/dir/file.html''"
proof -
  have v: "validatePath sampleEnv ''/base'' ''sub/dir/file.html'' = Inr ''/base/sub/dir/file.html''"
    by (simp add: resolver_defs)
  have b: "filepath_Abs sampleEnv ''/base'' = Some ''/base''"
    by (simp add: lib_defs)
  from validatePath_contained [OF v] b
  have s: "strict_prefix ''/base/'' ''/base/sub/dir/file.html''"
    and r: "\<exists>rel. plainPath rel \<and> ''/base/sub/dir/file.html'' = ''/base'' @ ''/'' @ rel"
    and c: "filepath_Clean ''/base/sub/dir/file.html'' = ''/base/sub/dir/file.html''"
    by simp_all
  from r have "plainPath ''sub/dir/file.html''"
    by auto
  with v b s c show ?thesis by simp
qed

subsection \<open>Null bytes\<close>

lemma byte_of_nonzero: "0 < n \<Longrightarrow> n < 256 \<Longrightarrow> CHR 0x00 \<noteq> byte_of n"
  using char_of_eq_iff [of n "CHR 0x00"] by (auto simp: byte_of_def take_bit_eq_mod)

lemma utf8_EncodeRune_no_nul: "r \<noteq> 0 \<Longrightarrow> CHR 0x00 \<notin> set (utf8_EncodeRune r)"
proof -
  assume r: "r \<noteq> 0"
  have m: "CHR 0x00 \<noteq> byte_of (0x80 + k mod 64)" for k :: nat
    by (rule byte_of_nonzero) simp_all
  show ?thesis
  proof (cases "r < 0x80")
    case True
    with r show ?thesis by (simp add: utf8_EncodeRune_def byte_of_nonzero)
  next
    case False
    have a: "r < 0x800 \<Longrightarrow> CHR 0x00 \<noteq> byte_of (0xC0 + r div 64)"
      by (rule byte_of_nonzero) simp_all
    have b: "r < 0x10000 \<Longrightarrow> CHR 0x00 \<noteq> byte_of (0xE0 + r div 4096)"
      by (rule byte_of_nonzero) simp_all
    have c: "r \<le> 0x10FFFF \<Longrightarrow> CHR 0x00 \<noteq> byte_of (0xF0 + r div 262144)"
      by (rule byte_of_nonzero) simp_all
    from False a b c m show ?thesis
      by (simp add: utf8_EncodeRune_def not_less)
  qed
qed

lemma normalizeRunes_no_nul: "CHR 0x00 \<notin> set (normalizeRunes rs)"
  by (induction rs) (simp_all add: utf8_EncodeRune_no_nul)

lemma ascii_not_C0: "byte a < 0x80 \<Longrightarrow> a \<noteq> CHR 0xC0"
  by (auto simp: byte_def)

lemma sanitizeUTF8_ascii: "list_all (\<lambda>c. byte c < 0x80) s \<Longrightarrow> sanitizeUTF8 s = s"
  by (induction s rule: sanitizeUTF8.induct) (auto simp: ascii_not_C0)

lemma runes_ascii: "list_all (\<lambda>c. byte c < 0x80) s \<Longrightarrow> runes s = map byte s"
  by (induction s) (simp_all add: Let_def)

definition strippedControl :: "char \<Rightarrow> bool" where
  "strippedControl c =
     (unicode_IsControl (byte c) \<and> c \<noteq> CHR 0x09 \<and> c \<noteq> CHR 0x0A \<and> c \<noteq> CHR 0x0D)"

lemma byte_eq_char: "byte c = byte d \<longleftrightarrow> c = d"
  by (simp only: byte_def of_char_eq_iff)

lemma normalizeRunes_ascii:
  "list_all (\<lambda>c. byte c < 0x80) s
     \<Longrightarrow> normalizeRunes (map byte s) = filter (\<lambda>c. \<not> strippedControl c) s"
proof (induction s)
  case Nil
  then show ?case by simp
next
  case (Cons c s)
  have e: "utf8_EncodeRune (byte c) = [c]"
    using Cons.prems by (simp add: utf8_EncodeRune_def byte_def byte_of_def)
  have z: "byte c = 0 \<Longrightarrow> unicode_IsControl (byte c)"
    by (simp add: unicode_IsControl_def)
  have t: "byte c = 0x09 \<longleftrightarrow> c = CHR 0x09" "byte c = 0x0A \<longleftrightarrow> c = CHR 0x0A"
    "byte c = 0x0D \<longleftrightarrow> c = CHR 0x0D" "byte c = 0 \<longleftrightarrow> c = CHR 0x00"
    using byte_eq_char [of c "CHR 0x09"] byte_eq_char [of c "CHR 0x0A"]
      byte_eq_char [of c "CHR 0x0D"] byte_eq_char [of c "CHR 0x00"]
    by (simp_all add: byte_def)
  from Cons e z t show ?case
    by (auto simp: strippedControl_def)
qed

text \<open>
  Claim C8, as the code has it. A null byte of the decoded path is not a reason to reject:
  \<^verbatim>\<open>normalizeAndClean\<close> removes it with the other control characters (tab, line feed and
  carriage return stay), so the normalized path never holds a null byte, and a decoded path
  of ASCII bytes is judged as the same path without its stripped control characters.
\<close>

theorem null_bytes_are_stripped:
  "CHR 0x00 \<notin> set (normalizeAndClean decoded)
   \<and> (list_all (\<lambda>c. byte c < 0x80) decoded
        \<longrightarrow> normalizeAndClean decoded = filter (\<lambda>c. \<not> strippedControl c) decoded)"
  by (simp add: normalizeAndClean_def normalizeRunes_no_nul sanitizeUTF8_ascii runes_ascii
        normalizeRunes_ascii)

theorem null_bytes_are_stripped_witness:
  "list_all (\<lambda>c. byte c < 0x80) [CHR ''a'', CHR 0x00, CHR ''b'']
   \<and> normalizeAndClean [CHR ''a'', CHR 0x00, CHR ''b''] = ''ab''
   \<and> CHR 0x00 \<notin> set (normalizeAndClean [CHR ''a'', CHR 0x00, CHR ''b''])"
proof -
  have a: "list_all (\<lambda>c. byte c < 0x80) [CHR ''a'', CHR 0x00, CHR ''b'']"
    by (simp add: byte_def)
  have f: "filter (\<lambda>c. \<not> strippedControl c) [CHR ''a'', CHR 0x00, CHR ''b''] = ''ab''"
    by (simp add: strippedControl_def unicode_IsControl_def byte_def)
  from null_bytes_are_stripped [of "[CHR ''a'', CHR 0x00, CHR ''b'']"] a f
  show ?thesis by simp
qed

text \<open>
  The request path \<open>a%00b\<close> decodes to a string with a null byte and is accepted: it
  resolves to \<open>/base/ab\<close>.
\<close>

theorem null_byte_accepted:
  "decodeMultipleLayers sampleEnv ''a%00b'' = Inr [CHR ''a'', CHR 0x00, CHR ''b'']
   \<and> validatePath sampleEnv ''/base'' ''a%00b'' = Inr ''/base/ab''"
  by (simp add: resolver_defs sampleEnv_def)

section \<open>The content renderer (\<^verbatim>\<open>internal/handler/handler.go\<close>, lines 304 to 339 and 877 to 1043)\<close>

subsection \<open>Package regexp, for the three expressions of \<^verbatim>\<open>processAssetPaths\<close>\<close>

text \<open>
  The two attribute expressions are
  \<^verbatim>\<open>((?:src|href|action)=["']([^"']*?)["'])\<close> and \<^verbatim>\<open>(src|href)=["']([^"']+)["']\<close>: one of the
  attribute names, the equals sign, a quote, a run of characters that are not quotes (empty
  or not), and a quote again (not necessarily the same one). As the run excludes the
  quotes, a match at a position ends at the first quote after the opening one. An attribute
  expression is given by its names and by whether the run must be non-empty.
\<close>

definition isQuote :: "char \<Rightarrow> bool" where
  "isQuote c = (c = CHR 0x22 \<or> c = CHR 0x27)"

record attr_match =
  m_attr :: string
  m_open :: char
  m_value :: string
  m_close :: char
  m_rest :: string

definition matchText :: "attr_match \<Rightarrow> string" where
  "matchText m = m_attr m @ ''='' @ [m_open m] @ m_value m @ [m_close m]"

text \<open>The match that starts at the front of the string, if there is one.\<close>

definition matchAttrAt :: "string list \<Rightarrow> bool \<Rightarrow> string \<Rightarrow> attr_match option" where
  "matchAttrAt names nonEmpty s =
     (case find (\<lambda>a. prefix (a @ ''='') s) names of
        None \<Rightarrow> None
      | Some a \<Rightarrow>
          (case drop (length a + 1) s of
             [] \<Rightarrow> None
           | q1 # t \<Rightarrow>
               if \<not> isQuote q1 then None
               else
                 (case dropWhile (\<lambda>c. \<not> isQuote c) t of
                    [] \<Rightarrow> None
                  | q2 # rest \<Rightarrow>
                      if nonEmpty \<and> takeWhile (\<lambda>c. \<not> isQuote c) t = [] then None
                      else Some \<lparr>m_attr = a, m_open = q1,
                                  m_value = takeWhile (\<lambda>c. \<not> isQuote c) t,
                                  m_close = q2, m_rest = rest\<rparr>)))"

lemma matchAttrAt_shorter:
  "matchAttrAt names nonEmpty s = Some m \<Longrightarrow> length (m_rest m) < length s"
proof -
  assume a: "matchAttrAt names nonEmpty s = Some m"
  have d: "length (dropWhile P t) \<le> length t" for P and t :: string
    by (rule length_dropWhile_le)
  from a obtain n q1 t q2 where
    "drop n s = q1 # t" and "dropWhile (\<lambda>c. \<not> isQuote c) t = q2 # m_rest m"
    by (auto simp: matchAttrAt_def split: option.splits list.splits if_splits)
  then have "length (m_rest m) < length t" and "length t < length s"
    using d [of "\<lambda>c. \<not> isQuote c" t] length_drop [of n s] by auto
  then show ?thesis by simp
qed

text \<open>
  \<^verbatim>\<open>ReplaceAllStringFunc\<close>: the matches are taken from the left, each search starting where
  the previous match ended; what lies between the matches is copied.
\<close>

function regexp_ReplaceAllStringFunc ::
  "string list \<Rightarrow> bool \<Rightarrow> (string \<Rightarrow> string) \<Rightarrow> string \<Rightarrow> string" where
  "regexp_ReplaceAllStringFunc names nonEmpty repl [] = []"
| "regexp_ReplaceAllStringFunc names nonEmpty repl (c # cs) =
     (case matchAttrAt names nonEmpty (c # cs) of
        None \<Rightarrow> c # regexp_ReplaceAllStringFunc names nonEmpty repl cs
      | Some m \<Rightarrow> repl (matchText m) @ regexp_ReplaceAllStringFunc names nonEmpty repl (m_rest m))"
  by pat_completeness auto
termination
  by (relation "measure (\<lambda>(names, nonEmpty, repl, s). length s)")
     (auto dest: matchAttrAt_shorter)

text \<open>\<^verbatim>\<open>FindStringSubmatch\<close>: the leftmost match and its groups.\<close>

fun regexp_FindStringSubmatch :: "string list \<Rightarrow> bool \<Rightarrow> string \<Rightarrow> attr_match option" where
  "regexp_FindStringSubmatch names nonEmpty [] = None"
| "regexp_FindStringSubmatch names nonEmpty (c # cs) =
     (case matchAttrAt names nonEmpty (c # cs) of
        Some m \<Rightarrow> Some m
      | None \<Rightarrow> regexp_FindStringSubmatch names nonEmpty cs)"

text \<open>
  Replacing every match of \<^verbatim>\<open>//+\<close> by one slash: each slash that another slash follows is
  dropped, so a run of slashes keeps its last one.
\<close>

fun collapseSlashes :: "string \<Rightarrow> string" where
  "collapseSlashes [] = []"
| "collapseSlashes [c] = [c]"
| "collapseSlashes (c # d # cs) =
     (if c = CHR ''/'' \<and> d = CHR ''/'' then collapseSlashes (d # cs)
      else c # collapseSlashes (d # cs))"

subsection \<open>\<^verbatim>\<open>processAssetPaths\<close>\<close>

text \<open>
  The file system enters through \<open>stat\<close>: \<open>stat p\<close> holds when \<^verbatim>\<open>os.Stat(p)\<close> returns no
  error.
\<close>

definition doubleSlashNames :: "string list" where
  "doubleSlashNames = [''src'', ''href'', ''action'']"

definition srcRegexNames :: "string list" where
  "srcRegexNames = [''src'', ''href'']"

text \<open>The function literal of lines 947 to 954.\<close>

definition collapseMatch :: "string \<Rightarrow> string" where
  "collapseMatch match =
     (if strings_Contains match ''http://'' \<or> strings_Contains match ''https://'' then match
      else collapseSlashes match)"

definition sprintfAttr :: "string \<Rightarrow> string \<Rightarrow> string" where
  "sprintfAttr attr newPath = attr @ [CHR ''='', CHR 0x22] @ newPath @ [CHR 0x22]"

definition templatePublicPath :: "string \<Rightarrow> string \<Rightarrow> string" where
  "templatePublicPath templateDir path =
     (let newPath = filepath_Clean (filepath_ToSlash (filepath_Join [''/templates'', templateDir, path]))
      in if \<not> strings_HasPrefix newPath ''/templates''
         then ''/templates/'' @ strings_TrimPrefix newPath ''/''
         else newPath)"

definition globalPublicPath :: "string \<Rightarrow> string" where
  "globalPublicPath path =
     filepath_Clean (filepath_ToSlash (filepath_Join [''/templates/assets'', path]))"

text \<open>
  The function literal of lines 961 to 1040. It reads the groups of its match with
  \<^verbatim>\<open>FindStringSubmatch\<close>; a nil result would make \<^verbatim>\<open>parts[1]\<close> panic, which the model
  shows as the match returned as it is (lemma \<open>rewrite_groups\<close> below: that never happens on
  a match of the expression).
\<close>

definition rewriteMatch :: "(string \<Rightarrow> bool) \<Rightarrow> string \<Rightarrow> string \<Rightarrow> string \<Rightarrow> string" where
  "rewriteMatch stat baseDir templateDir match =
     (case regexp_FindStringSubmatch srcRegexNames True match of
        None \<Rightarrow> match
      | Some parts \<Rightarrow>
          (let attr = m_attr parts; path = m_value parts
           in if strings_HasPrefix path ''http://'' \<or> strings_HasPrefix path ''https://''
                 \<or> strings_HasPrefix path ''//'' \<or> strings_HasPrefix path ''data:''
                 \<or> strings_HasPrefix path ''#''
              then match
              else if strings_HasPrefix path ''/templates/'' then
                (let relativePath = strings_TrimPrefix path ''/templates/'';
                     fullPath = filepath_Join [baseDir, relativePath]
                 in if stat fullPath then match
                    else
                      (let templatePrefix = templateDir @ ''/''
                       in if strings_HasPrefix relativePath templatePrefix then
                            (let assetPath0 = strings_TrimPrefix relativePath templatePrefix;
                                 assetPath = (if strings_HasPrefix assetPath0 ''assets/''
                                              then strings_TrimPrefix assetPath0 ''assets/''
                                              else assetPath0);
                                 globalAssetsPath = filepath_Join [baseDir, ''assets'', assetPath]
                             in if stat globalAssetsPath
                                then sprintfAttr attr (globalPublicPath assetPath)
                                else match)
                          else match))
              else
                (let localPath = filepath_Join [baseDir, templateDir, path]
                 in if stat localPath then sprintfAttr attr (templatePublicPath templateDir path)
                    else
                      (let globalAssetsPath = filepath_Join [baseDir, ''assets'', path]
                       in if stat globalAssetsPath then sprintfAttr attr (globalPublicPath path)
                          else sprintfAttr attr (templatePublicPath templateDir path)))))"

definition processAssetPaths :: "(string \<Rightarrow> bool) \<Rightarrow> string \<Rightarrow> string \<Rightarrow> string \<Rightarrow> string" where
  "processAssetPaths stat content reqPath baseDir =
     (let content1 = strings_ReplaceAll content [CHR ''s'', CHR ''r'', CHR ''c'', CHR ''='', CHR 0x22, CHR ''/'', CHR ''/'']
                       [CHR ''s'', CHR ''r'', CHR ''c'', CHR ''='', CHR 0x22, CHR ''/''];
          content2 = strings_ReplaceAll content1
                       [CHR ''h'', CHR ''r'', CHR ''e'', CHR ''f'', CHR ''='', CHR 0x22, CHR ''/'', CHR ''/'']
                       [CHR ''h'', CHR ''r'', CHR ''e'', CHR ''f'', CHR ''='', CHR 0x22, CHR ''/''];
          content3 = regexp_ReplaceAllStringFunc doubleSlashNames False collapseMatch content2;
          templateDir = filepath_Dir reqPath
      in regexp_ReplaceAllStringFunc srcRegexNames True (rewriteMatch stat baseDir templateDir) content3)"

subsection \<open>The template variables and \<^verbatim>\<open>processTemplateContent\<close>\<close>

text \<open>
  \<^verbatim>\<open>templateVars\<close> is a Go map; its entries are listed in the order of the source. A loop
  over the map visits them in an order the runtime chooses, so the functions below take the
  visited entries as an argument.
\<close>

definition trackerMarkup :: string where
  \<open>trackerMarkup = ''<img src="https://phishing.test/opened/unique-id" alt="" width="1" height="1" border="0" style="height:1px !important;width:1px" />''\<close>

definition templateVars :: "(string \<times> string) list" where
  "templateVars =
     [(''{{.rID}}'', ''1234567890''),
      (''{{.FirstName}}'', ''John''),
      (''{{.LastName}}'', ''Doe''),
      (''{{.Email}}'', ''john.doe@example.com''),
      (''{{.To}}'', ''john.doe@example.com''),
      (''{{.Phone}}'', ''+1-555-123-4567''),
      (''{{.ExtraIdentifier}}'', ''EMP001''),
      (''{{.Position}}'', ''IT Manager''),
      (''{{.Department}}'', ''Information Technology''),
      (''{{.City}}'', ''New York''),
      (''{{.Country}}'', ''United States''),
      (''{{.Misc}}'', ''Additional Info''),
      (''{{.Tracker}}'', trackerMarkup),
      (''{{.TrackingURL}}'', ''https://phishing.test/clicked/unique-id''),
      (''{{.From}}'', ''Security Team <security@phishing.test>''),
      (''{{.BaseURL}}'', ''https://phishing.test''),
      (''{{.URL}}'', ''https://phishing.test/phishing-link''),
      (''{{.DenyURL}}'', ''https://phishing.test/access-denied''),
      (''{{.APIKey}}'', []),
      (''{{.CustomField1}}'', []),
      (''{{.CustomField2}}'', []),
      (''{{.CustomField3}}'', []),
      (''{{.CustomField4}}'', [])]"

text \<open>
  A value of the template data is a Go \<^verbatim>\<open>string\<close> or a \<^verbatim>\<open>template.HTML\<close>. The template
  engine (package \<^verbatim>\<open>html/template\<close>, with the functions of \<^verbatim>\<open>TemplateFuncs\<close>) is an
  argument: \<open>tmpl_Parse\<close> and \<open>tmpl_Execute\<close> give \<open>None\<close> where the engine returns an error.
\<close>

datatype tvalue = PlainString string | TemplateHTML string

record 't template_engine =
  tmpl_Parse :: "string \<Rightarrow> 't option"
  tmpl_Execute :: "'t \<Rightarrow> (string \<rightharpoonup> tvalue) \<Rightarrow> string option"

definition computeBaseURL :: "string \<Rightarrow> string" where
  "computeBaseURL reqPath =
     (let dirPath0 = filepath_ToSlash (filepath_Dir reqPath);
          dirPath = (if dirPath0 = ''.'' then [] else dirPath0);
          baseURL = ''/templates/'' @ dirPath
      in strings_TrimRight baseURL ''/'')"

text \<open>The loop of lines 895 to 906 over the visited entries.\<close>

fun bindVars :: "(string \<times> string) list \<Rightarrow> (string \<rightharpoonup> tvalue) \<Rightarrow> (string \<rightharpoonup> tvalue)" where
  "bindVars [] templateData = templateData"
| "bindVars ((placeholder, val) # rest) templateData =
     (if strings_HasPrefix placeholder ''{{.'' \<and> strings_HasSuffix placeholder ''}}'' then
        (let varName = strings_TrimPrefix (strings_TrimSuffix placeholder ''}}'') ''{{.''
         in if varName = ''Tracker''
            then bindVars rest (templateData(varName \<mapsto> TemplateHTML val))
            else bindVars rest (templateData(varName \<mapsto> PlainString val)))
      else bindVars rest templateData)"

definition buildTemplateData :: "(string \<times> string) list \<Rightarrow> string \<Rightarrow> (string \<rightharpoonup> tvalue)" where
  "buildTemplateData vars baseURL = (bindVars vars Map.empty)(''BaseURL'' \<mapsto> PlainString baseURL)"

text \<open>The string replacement of lines 915 to 918 (and 926 to 929).\<close>

fun replaceVars :: "(string \<times> string) list \<Rightarrow> string \<Rightarrow> string" where
  "replaceVars [] content = content"
| "replaceVars ((placeholder, val) # rest) content =
     replaceVars rest (strings_ReplaceAll content placeholder val)"

definition fallbackContent :: "(string \<times> string) list \<Rightarrow> string \<Rightarrow> string \<Rightarrow> string" where
  "fallbackContent vars content baseURL =
     replaceVars vars (strings_ReplaceAll content ''{{.BaseURL}}'' baseURL)"

definition processTemplateContent ::
  "'t template_engine \<Rightarrow> (string \<times> string) list \<Rightarrow> (string \<Rightarrow> bool)
     \<Rightarrow> string \<Rightarrow> string \<Rightarrow> string \<Rightarrow> string" where
  "processTemplateContent engine vars stat content reqPath baseDir =
     (let baseURL = computeBaseURL reqPath;
          templateData = buildTemplateData vars baseURL
      in case tmpl_Parse engine content of
           None \<Rightarrow> processAssetPaths stat (fallbackContent vars content baseURL) reqPath baseDir
         | Some tmpl \<Rightarrow>
             (case tmpl_Execute engine tmpl templateData of
                None \<Rightarrow> processAssetPaths stat (fallbackContent vars content baseURL) reqPath baseDir
              | Some rendered \<Rightarrow> processAssetPaths stat rendered reqPath baseDir))"

subsection \<open>A fragment of \<^verbatim>\<open>html/template\<close>\<close>

text \<open>
  To run the renderer on documents, the engine is instantiated with a fragment of
  \<^verbatim>\<open>html/template\<close>: template text without \<open><\<close>, where the engine stays in its text context
  and copies the text, and actions that are one field of the data, \<^verbatim>\<open>{{.Name}}\<close>, white
  space allowed inside the delimiters. There the engine writes a \<^verbatim>\<open>string\<close> through its HTML
  escaper, a \<^verbatim>\<open>template.HTML\<close> as it is, and nothing for a key the data lacks. Two parse
  errors of the engine are in the fragment: a left delimiter with no right delimiter after
  it (\<^verbatim>\<open>unclosed action\<close>), and a field followed by a character that can neither continue nor
  end it (\<^verbatim>\<open>bad character\<close>). Every other document is beyond the fragment: a tag, another
  kind of action, a trim marker, a letter outside ASCII. For these the model does not say
  what the engine does; the result is left unspecified (\<^const>\<open>undefined\<close>), so that nothing
  follows about them.
\<close>

datatype tnode = TextNode string | FieldNode string

text \<open>What the lexer of \<^verbatim>\<open>text/template\<close> makes of the text between the delimiters.\<close>

datatype action = AField string | ABadCharacter | ABeyond

datatype parse_result = Parsed "tnode list" | ParseError | Beyond

definition isAlpha :: "char \<Rightarrow> bool" where
  "isAlpha c =
     ((0x41 \<le> byte c \<and> byte c \<le> 0x5A) \<or> (0x61 \<le> byte c \<and> byte c \<le> 0x7A) \<or> c = CHR ''_'')"

definition isAlphaNumeric :: "char \<Rightarrow> bool" where
  "isAlphaNumeric c = (isAlpha c \<or> (0x30 \<le> byte c \<and> byte c \<le> 0x39))"

definition isIdentifier :: "string \<Rightarrow> bool" where
  "isIdentifier name = (case name of [] \<Rightarrow> False | c # cs \<Rightarrow> isAlpha c \<and> list_all isAlphaNumeric cs)"

definition isSpace :: "char \<Rightarrow> bool" where
  "isSpace c = (c = CHR '' '' \<or> c = CHR 0x09 \<or> c = CHR 0x0D \<or> c = CHR 0x0A)"

text \<open>\<^verbatim>\<open>atTerminator\<close>, the right delimiter apart.\<close>

definition isTerminator :: "char \<Rightarrow> bool" where
  "isTerminator c = (isSpace c \<or> c \<in> set ''.,|:)('')"

text \<open>
  \<^verbatim>\<open>lexField\<close>, on the text after the dot: the run of letters and digits is the name; what
  follows must be a terminator, or the lexer reports a bad character. A dot alone, a number,
  and a field followed by more than white space are beyond the fragment.
\<close>

definition lexField :: "string \<Rightarrow> action" where
  "lexField s =
     (let name = takeWhile isAlphaNumeric s;
          rest = dropWhile isAlphaNumeric s
      in if name \<noteq> [] \<and> \<not> isIdentifier name then ABeyond
         else (case rest of
                 [] \<Rightarrow> if name = [] then ABeyond else AField name
               | c # cs \<Rightarrow>
                   if 0x80 \<le> byte c \<or> c = CHR ''}'' then ABeyond
                   else if isTerminator c then
                     (if name \<noteq> [] \<and> list_all isSpace rest then AField name else ABeyond)
                   else ABadCharacter))"

definition lexAction :: "string \<Rightarrow> action" where
  "lexAction body =
     (case dropWhile isSpace body of
        [] \<Rightarrow> ABeyond
      | c # s \<Rightarrow> if c = CHR ''.'' then lexField s else ABeyond)"

text \<open>The text up to the first right delimiter, and what follows the delimiter.\<close>

fun splitAction :: "string \<Rightarrow> (string \<times> string) option" where
  "splitAction [] = None"
| "splitAction [c] = None"
| "splitAction (c # d # cs) =
     (if c = CHR ''}'' \<and> d = CHR ''}'' then Some ([], cs)
      else (case splitAction (d # cs) of
              None \<Rightarrow> None
            | Some (body, rest) \<Rightarrow> Some (c # body, rest)))"

lemma splitAction_shorter: "splitAction s = Some (body, rest) \<Longrightarrow> length rest < length s"
  by (induction s arbitrary: body rule: splitAction.induct)
     (auto split: if_splits option.splits)

definition addText :: "char \<Rightarrow> tnode list \<Rightarrow> tnode list" where
  "addText c nodes =
     (case nodes of
        TextNode t # ns \<Rightarrow> TextNode (c # t) # ns
      | _ \<Rightarrow> TextNode [c] # nodes)"

definition consNode :: "tnode \<Rightarrow> parse_result \<Rightarrow> parse_result" where
  "consNode node r = (case r of Parsed nodes \<Rightarrow> Parsed (node # nodes) | _ \<Rightarrow> r)"

definition consText :: "char \<Rightarrow> parse_result \<Rightarrow> parse_result" where
  "consText c r = (case r of Parsed nodes \<Rightarrow> Parsed (addText c nodes) | _ \<Rightarrow> r)"

function parseFragment :: "string \<Rightarrow> parse_result" where
  "parseFragment [] = Parsed []"
| "parseFragment (c # cs) =
     (if prefix ''{{'' (c # cs) then
        (case splitAction (drop 1 cs) of
           None \<Rightarrow> ParseError
         | Some (body, rest) \<Rightarrow>
             (case lexAction body of
                ABadCharacter \<Rightarrow> ParseError
              | ABeyond \<Rightarrow> Beyond
              | AField name \<Rightarrow> consNode (FieldNode name) (parseFragment rest)))
      else if c = CHR ''<'' then Beyond
      else consText c (parseFragment cs))"
  by pat_completeness auto
termination
proof (relation "measure length", goal_cases)
  case 1
  show ?case by simp
next
  case (2 c cs x2 body rest name)
  then have "length rest < length (drop 1 cs)"
    using splitAction_shorter [of "drop 1 cs" body rest] by simp
  then show ?case by simp
next
  case (3 c cs)
  show ?case by simp
qed

definition htmlEscapeChar :: "char \<Rightarrow> string" where
  "htmlEscapeChar c =
     (if c = CHR 0x00 then [CHR 0xEF, CHR 0xBF, CHR 0xBD]
      else if c = CHR 0x22 then ''&#34;''
      else if c = CHR ''&'' then ''&amp;''
      else if c = CHR 0x27 then ''&#39;''
      else if c = CHR ''+'' then ''&#43;''
      else if c = CHR ''<'' then ''&lt;''
      else if c = CHR ''>'' then ''&gt;''
      else [c])"

definition htmlEscaper :: "string \<Rightarrow> string" where
  "htmlEscaper s = concat (map htmlEscapeChar s)"

fun executeNode :: "(string \<rightharpoonup> tvalue) \<Rightarrow> tnode \<Rightarrow> string" where
  "executeNode templateData (TextNode t) = t"
| "executeNode templateData (FieldNode name) =
     (case templateData name of
        None \<Rightarrow> []
      | Some (PlainString s) \<Rightarrow> htmlEscaper s
      | Some (TemplateHTML h) \<Rightarrow> h)"

text \<open>
  The engine on the fragment. A parsed template is the list of its nodes; a document beyond
  the fragment is kept as it is, and neither whether it parses nor what it renders to is
  specified.
\<close>

definition htmlTemplateFragment :: "(string + tnode list) template_engine" where
  "htmlTemplateFragment =
     \<lparr>tmpl_Parse = (\<lambda>content. case parseFragment content of
                                  Parsed nodes \<Rightarrow> Some (Inr nodes)
                                | ParseError \<Rightarrow> None
                                | Beyond \<Rightarrow> undefined content),
      tmpl_Execute = (\<lambda>tmpl templateData. case tmpl of
                                  Inr nodes \<Rightarrow> Some (concat (map (executeNode templateData) nodes))
                                | Inl content \<Rightarrow> undefined content templateData)\<rparr>"

subsection \<open>Running the renderer on concrete documents\<close>

lemmas asset_defs =
  lib_defs suffix_to_prefix isQuote_def matchText_def matchAttrAt_def doubleSlashNames_def
  srcRegexNames_def collapseMatch_def sprintfAttr_def templatePublicPath_def globalPublicPath_def
  rewriteMatch_def processAssetPaths_def

lemmas render_defs =
  asset_defs computeBaseURL_def buildTemplateData_def fallbackContent_def
  processTemplateContent_def isAlpha_def isAlphaNumeric_def isIdentifier_def isSpace_def
  isTerminator_def lexField_def lexAction_def consNode_def consText_def addText_def
  htmlEscapeChar_def htmlEscaper_def htmlTemplateFragment_def templateVars_def trackerMarkup_def

subsection \<open>Text without quotes is not touched by \<^const>\<open>processAssetPaths\<close>\<close>

lemma replaceNonEmpty_absent:
  "c \<in> set old \<Longrightarrow> c \<notin> set s \<Longrightarrow> replaceNonEmpty old new s = s"
proof (induction s)
  case Nil
  then show ?case by simp
next
  case (Cons x xs)
  have "\<not> prefix old (x # xs)"
  proof
    assume "prefix old (x # xs)"
    then have "set old \<subseteq> set (x # xs)" by (rule set_mono_prefix)
    with Cons.prems show False by auto
  qed
  with Cons show ?case by simp
qed

lemma strings_ReplaceAll_absent:
  "c \<in> set old \<Longrightarrow> c \<notin> set s \<Longrightarrow> strings_ReplaceAll s old new = s"
  by (auto simp: strings_ReplaceAll_def replaceNonEmpty_absent)

lemma matchAttrAt_quotes:
  assumes "matchAttrAt names nonEmpty s = Some m"
  shows "\<exists>c \<in> set s. isQuote c"
proof -
  from assms obtain n q1 t where "drop n s = q1 # t" "isQuote q1"
    by (auto simp: matchAttrAt_def split: option.splits list.splits if_splits)
  then have "q1 \<in> set (drop n s)" by simp
  then have "q1 \<in> set s" by (rule in_set_dropD)
  with \<open>isQuote q1\<close> show ?thesis by blast
qed

lemma ReplaceAllStringFunc_no_quote:
  "\<forall>c \<in> set s. \<not> isQuote c \<Longrightarrow> regexp_ReplaceAllStringFunc names nonEmpty repl s = s"
proof (induction s)
  case Nil
  then show ?case by simp
next
  case (Cons x xs)
  have "matchAttrAt names nonEmpty (x # xs) = None"
  proof (cases "matchAttrAt names nonEmpty (x # xs)")
    case None
    then show ?thesis .
  next
    case (Some m)
    from matchAttrAt_quotes [OF Some] Cons.prems show ?thesis by blast
  qed
  with Cons show ?case by simp
qed

lemma processAssetPaths_no_quote:
  assumes "\<forall>c \<in> set content. \<not> isQuote c"
  shows "processAssetPaths stat content reqPath baseDir = content"
proof -
  have q: "CHR 0x22 \<notin> set content"
    using assms by (auto simp: isQuote_def)
  have r1: "strings_ReplaceAll content
              [CHR ''s'', CHR ''r'', CHR ''c'', CHR ''='', CHR 0x22, CHR ''/'', CHR ''/'']
              [CHR ''s'', CHR ''r'', CHR ''c'', CHR ''='', CHR 0x22, CHR ''/''] = content"
    by (rule strings_ReplaceAll_absent [of "CHR 0x22"]) (simp_all add: q)
  have r2: "strings_ReplaceAll content
              [CHR ''h'', CHR ''r'', CHR ''e'', CHR ''f'', CHR ''='', CHR 0x22, CHR ''/'', CHR ''/'']
              [CHR ''h'', CHR ''r'', CHR ''e'', CHR ''f'', CHR ''='', CHR 0x22, CHR ''/''] = content"
    by (rule strings_ReplaceAll_absent [of "CHR 0x22"]) (simp_all add: q)
  show ?thesis
    unfolding processAssetPaths_def Let_def r1 r2
    by (simp add: ReplaceAllStringFunc_no_quote assms)
qed

lemma htmlEscapeChar_no_quote: "list_all (\<lambda>d. \<not> isQuote d) (htmlEscapeChar c)"
  by (simp add: htmlEscapeChar_def isQuote_def)

lemma htmlEscaper_no_quote: "\<forall>c \<in> set (htmlEscaper s). \<not> isQuote c"
  using htmlEscapeChar_no_quote by (auto simp: htmlEscaper_def list_all_iff)
subsection \<open>The template data\<close>

definition wellFormedPlaceholder :: "string \<Rightarrow> bool" where
  "wellFormedPlaceholder placeholder =
     (strings_HasPrefix placeholder ''{{.'' \<and> strings_HasSuffix placeholder ''}}'')"

definition varNameOf :: "string \<Rightarrow> string" where
  "varNameOf placeholder = strings_TrimPrefix (strings_TrimSuffix placeholder ''}}'') ''{{.''"

definition boundValue :: "string \<Rightarrow> string \<Rightarrow> tvalue" where
  "boundValue varName val = (if varName = ''Tracker'' then TemplateHTML val else PlainString val)"

lemma placeholder_of_name:
  "wellFormedPlaceholder (''{{.'' @ name @ ''}}'') \<and> varNameOf (''{{.'' @ name @ ''}}'') = name"
  by (simp add: wellFormedPlaceholder_def varNameOf_def strings_HasPrefix_def strings_HasSuffix_def
        strings_TrimPrefix_def strings_TrimSuffix_def suffix_def)

lemma placeholder_shape:
  assumes "wellFormedPlaceholder p"
  shows "p = ''{{.'' @ varNameOf p @ ''}}''"
proof -
  from assms obtain r where r: "p = ''{{.'' @ r"
    by (auto simp: wellFormedPlaceholder_def strings_HasPrefix_def prefix_def)
  from assms obtain l where l: "p = l @ ''}}''"
    by (auto simp: wellFormedPlaceholder_def strings_HasSuffix_def suffix_def)
  have "suffix ''}}'' r"
  proof -
    from r l have e: "''{{.'' @ r = l @ ''}}''" by simp
    then have "length r \<ge> 2"
      by (cases r rule: rev_cases; cases l rule: rev_cases) (auto simp: append_eq_Cons_conv Cons_eq_append_conv)
    with e show ?thesis
      by (auto simp: suffix_def append_eq_append_conv2 Cons_eq_append_conv append_eq_Cons_conv)
  qed
  then obtain n where n: "r = n @ ''}}''" by (auto simp: suffix_def)
  with r have "varNameOf p = n"
    by (simp add: varNameOf_def strings_TrimSuffix_def strings_TrimPrefix_def suffix_def)
  with r n show ?thesis by simp
qed

lemma bindVars_step:
  "bindVars ((p, v) # rest) d =
     (if wellFormedPlaceholder p then bindVars rest (d(varNameOf p \<mapsto> boundValue (varNameOf p) v))
      else bindVars rest d)"
  by (simp add: wellFormedPlaceholder_def varNameOf_def boundValue_def Let_def)

lemma bindVars_other:
  "\<forall>(p, v) \<in> set vars. \<not> (wellFormedPlaceholder p \<and> varNameOf p = n) \<Longrightarrow> bindVars vars d n = d n"
proof (induction vars arbitrary: d)
  case Nil
  then show ?case by simp
next
  case (Cons a vars)
  obtain p v where a: "a = (p, v)" by (cases a)
  from Cons.prems a have rest: "\<forall>(p, v) \<in> set vars. \<not> (wellFormedPlaceholder p \<and> varNameOf p = n)"
    and hd: "\<not> (wellFormedPlaceholder p \<and> varNameOf p = n)" by auto
  show ?case
    unfolding a bindVars_step using Cons.IH [OF rest] hd by auto
qed

lemma bindVars_hit:
  assumes "distinct (map fst vars)" and "(p, v) \<in> set vars" and "wellFormedPlaceholder p"
  shows "bindVars vars d (varNameOf p) = Some (boundValue (varNameOf p) v)"
  using assms
proof (induction vars arbitrary: d)
  case Nil
  then show ?case by simp
next
  case (Cons a vars)
  obtain p' v' where a: "a = (p', v')" by (cases a)
  show ?case
  proof (cases "p' = p")
    case True
    with Cons.prems a have v: "v' = v" and notin: "p \<notin> fst ` set vars"
      by (auto simp: image_iff)
    have "\<forall>(q, w) \<in> set vars. \<not> (wellFormedPlaceholder q \<and> varNameOf q = varNameOf p)"
    proof (clarify)
      fix q w
      assume in_vars: "(q, w) \<in> set vars" and wf: "wellFormedPlaceholder q"
        and same: "varNameOf q = varNameOf p"
      from placeholder_shape [OF wf] placeholder_shape [OF Cons.prems(3)] same
      have "q = p" by simp
      with in_vars notin show False by (force simp: image_iff)
    qed
    from bindVars_other [OF this] True v Cons.prems(3) show ?thesis
      unfolding a bindVars_step by simp
  next
    case False
    with Cons.prems a have "(p, v) \<in> set vars" "distinct (map fst vars)" by auto
    from Cons.IH [OF this(2) this(1) Cons.prems(3)] show ?thesis
      unfolding a bindVars_step by simp
  qed
qed

lemma buildTemplateData_BaseURL:
  "buildTemplateData vars baseURL ''BaseURL'' = Some (PlainString baseURL)"
  by (simp add: buildTemplateData_def)

lemma buildTemplateData_var:
  assumes "distinct (map fst vars)" and "(''{{.'' @ name @ ''}}'', v) \<in> set vars"
    and "name \<noteq> ''BaseURL''"
  shows "buildTemplateData vars baseURL name = Some (boundValue name v)"
  using bindVars_hit [OF assms(1) assms(2)] placeholder_of_name [of name] assms(3)
  by (simp add: buildTemplateData_def)

subsection \<open>The fragment engine on fields\<close>

lemma splitAction_body:
  "CHR ''}'' \<notin> set body \<Longrightarrow> splitAction (body @ ''}}'' @ rest) = Some (body, rest)"
proof (induction body)
  case Nil
  then show ?case by simp
next
  case (Cons a body)
  then show ?case by (cases body) auto
qed

lemma isAlphaNumeric_chars: "isAlphaNumeric c \<Longrightarrow> c \<noteq> CHR ''}'' \<and> c \<noteq> CHR '' ''"
  by (auto simp: isAlphaNumeric_def isAlpha_def byte_def)

lemma isIdentifier_alnum: "isIdentifier name \<Longrightarrow> name \<noteq> [] \<and> list_all isAlphaNumeric name"
  by (cases name) (simp_all add: isIdentifier_def isAlphaNumeric_def)

lemma isIdentifier_chars:
  assumes "isIdentifier name"
  shows "name \<noteq> [] \<and> CHR ''}'' \<notin> set name \<and> CHR '' '' \<notin> set name"
  using isIdentifier_alnum [OF assms] isAlphaNumeric_chars by (auto simp: list_all_iff)

lemma lexAction_field:
  assumes "isIdentifier name"
  shows "lexAction (CHR ''.'' # name) = AField name"
proof -
  from isIdentifier_alnum [OF assms] have ne: "name \<noteq> []" and al: "list_all isAlphaNumeric name"
    by simp_all
  have t: "takeWhile isAlphaNumeric name = name" "dropWhile isAlphaNumeric name = []"
    using al by (simp_all add: list_all_iff)
  show ?thesis
    using assms ne by (simp add: lexAction_def lexField_def isSpace_def t)
qed

lemma parseFragment_field:
  assumes "isIdentifier name"
  shows "parseFragment (''{{.'' @ name @ ''}}'') = Parsed [FieldNode name]"
proof -
  from isIdentifier_chars [OF assms]
  have nb: "CHR ''}'' \<notin> set (CHR ''.'' # name)"
    by simp
  have s: "splitAction ((CHR ''.'' # name) @ ''}}'' @ []) = Some (CHR ''.'' # name, [])"
    using nb by (rule splitAction_body)
  from s lexAction_field [OF assms] show ?thesis by (simp add: consNode_def)
qed

text \<open>A document of the fragment renders as its nodes, one after the other.\<close>

lemma render_parsed:
  assumes "parseFragment content = Parsed nodes"
  shows "processTemplateContent htmlTemplateFragment vars stat content reqPath baseDir =
           processAssetPaths stat
             (concat (map (executeNode (buildTemplateData vars (computeBaseURL reqPath))) nodes))
             reqPath baseDir"
  using assms by (simp add: processTemplateContent_def htmlTemplateFragment_def Let_def)

text \<open>A document that the fragment engine cannot parse takes the string replacement.\<close>

lemma render_parse_error:
  assumes "parseFragment content = ParseError"
  shows "processTemplateContent htmlTemplateFragment vars stat content reqPath baseDir =
           processAssetPaths stat (fallbackContent vars content (computeBaseURL reqPath)) reqPath baseDir"
  using assms by (simp add: processTemplateContent_def htmlTemplateFragment_def Let_def)

lemma render_field:
  assumes "isIdentifier name"
  shows "processTemplateContent htmlTemplateFragment vars stat (''{{.'' @ name @ ''}}'') reqPath baseDir =
           processAssetPaths stat
             (executeNode (buildTemplateData vars (computeBaseURL reqPath)) (FieldNode name))
             reqPath baseDir"
  using render_parsed [OF parseFragment_field [OF assms], of vars stat reqPath baseDir] by simp

lemma render_var:
  assumes "distinct (map fst vars)" and "(''{{.'' @ name @ ''}}'', v) \<in> set vars"
    and "isIdentifier name" and "name \<noteq> ''BaseURL''"
  shows "processTemplateContent htmlTemplateFragment vars stat (''{{.'' @ name @ ''}}'') reqPath baseDir =
           (if name = ''Tracker'' then processAssetPaths stat v reqPath baseDir else htmlEscaper v)"
  unfolding render_field [OF assms(3)] executeNode.simps
    buildTemplateData_var [OF assms(1) assms(2) assms(4)]
  by (simp add: boundValue_def processAssetPaths_no_quote htmlEscaper_no_quote)


lemma templateVars_distinct: "distinct (map fst templateVars)"
  by (simp add: templateVars_def)


definition failingEngine :: "unit template_engine" where
  "failingEngine = \<lparr>tmpl_Parse = (\<lambda>content. None), tmpl_Execute = (\<lambda>tmpl templateData. None)\<rparr>"

lemma computeBaseURL_examples:
  "computeBaseURL ''a/email.html'' = ''/templates/a''"
  "computeBaseURL ''b/c/email.html'' = ''/templates/b/c''"
  by (simp_all add: computeBaseURL_def lib_defs)

lemma fallback_taken:
  assumes "tmpl_Parse engine content = None
           \<or> (\<exists>t. tmpl_Parse engine content = Some t
                 \<and> tmpl_Execute engine t (buildTemplateData vars (computeBaseURL reqPath)) = None)"
  shows "processTemplateContent engine vars stat content reqPath baseDir =
           processAssetPaths stat (fallbackContent vars content (computeBaseURL reqPath)) reqPath baseDir"
  using assms by (auto simp: processTemplateContent_def Let_def)




text \<open>
  Claim C7. The template data binds \<open>BaseURL\<close> to the value computed from the request path
  (line 909), so the engine never sees the value of the table. The string replacement taken
  when the engine fails replaces \<open>{{.BaseURL}}\<close> by the computed value first, but its loop
  over the table then replaces the same placeholder by the value of the table (the loop of
  \<^verbatim>\<open>processTemplateContentForEmail\<close> leaves \<open>BaseURL\<close> out). When the runtime visits the empty
  \<open>APIKey\<close> before \<open>BaseURL\<close>, a placeholder that only appears once \<open>{{.APIKey}}\<close> is gone
  is rendered as the static value; visited in the order of the source, it stays as it is.
\<close>

theorem static_baseURL_leaks:
  "processTemplateContent htmlTemplateFragment (rev templateVars) (\<lambda>p. False)
       ''{{.{{.APIKey}}BaseURL}} {{'' ''a/email.html'' ''/srv''
     = ''https://phishing.test {{''
   \<and> processTemplateContent htmlTemplateFragment templateVars (\<lambda>p. False)
       ''{{.{{.APIKey}}BaseURL}} {{'' ''a/email.html'' ''/srv''
     = ''{{.BaseURL}} {{''
   \<and> computeBaseURL ''a/email.html'' = ''/templates/a''"
proof (intro conjI)
  have n: "parseFragment ''{{.{{.APIKey}}BaseURL}} {{'' = ParseError"
    by (simp add: lexAction_def lexField_def isSpace_def isTerminator_def isIdentifier_def
          isAlpha_def isAlphaNumeric_def consNode_def consText_def addText_def lib_defs)
  have r: "fallbackContent (rev templateVars) ''{{.{{.APIKey}}BaseURL}} {{'' (computeBaseURL ''a/email.html'')
           = ''https://phishing.test {{''"
    by (simp add: fallbackContent_def templateVars_def trackerMarkup_def strings_ReplaceAll_def
          computeBaseURL_examples)
  have s: "fallbackContent templateVars ''{{.{{.APIKey}}BaseURL}} {{'' (computeBaseURL ''a/email.html'')
           = ''{{.BaseURL}} {{''"
    by (simp add: fallbackContent_def templateVars_def trackerMarkup_def strings_ReplaceAll_def
          computeBaseURL_examples)
  have q: "\<forall>c \<in> set ''https://phishing.test {{''. \<not> isQuote c"
    "\<forall>c \<in> set ''{{.BaseURL}} {{''. \<not> isQuote c"
    by (simp_all add: isQuote_def)
  show "processTemplateContent htmlTemplateFragment (rev templateVars) (\<lambda>p. False)
          ''{{.{{.APIKey}}BaseURL}} {{'' ''a/email.html'' ''/srv'' = ''https://phishing.test {{''"
    by (simp only: render_parse_error [OF n] r processAssetPaths_no_quote [OF q(1)])
  show "processTemplateContent htmlTemplateFragment templateVars (\<lambda>p. False)
          ''{{.{{.APIKey}}BaseURL}} {{'' ''a/email.html'' ''/srv'' = ''{{.BaseURL}} {{''"
    by (simp only: render_parse_error [OF n] s processAssetPaths_no_quote [OF q(2)])
  show "computeBaseURL ''a/email.html'' = ''/templates/a''"
    by (rule computeBaseURL_examples)
qed

text \<open>
  Claim C5, as the code has it. \<^verbatim>\<open>processTemplateContent\<close> returns a document for every
  input. When the engine fails to parse or to execute, the result is the asset rewriting of
  the content in which \<open>{{.BaseURL}}\<close> and then every placeholder of the table have been
  replaced by their values as they stand: a placeholder becomes its raw value, with no HTML
  escaping.
\<close>

theorem fallback_replaces_raw_values:
  "(tmpl_Parse engine content = None
      \<or> (\<exists>t. tmpl_Parse engine content = Some t
            \<and> tmpl_Execute engine t (buildTemplateData vars (computeBaseURL reqPath)) = None)
    \<longrightarrow> processTemplateContent engine vars stat content reqPath baseDir =
          processAssetPaths stat
            (replaceVars vars (strings_ReplaceAll content ''{{.BaseURL}}'' (computeBaseURL reqPath)))
            reqPath baseDir)
   \<and> (placeholder \<noteq> [] \<longrightarrow> replaceVars [(placeholder, val)] placeholder = val)"
proof (intro conjI impI)
  assume "tmpl_Parse engine content = None
      \<or> (\<exists>t. tmpl_Parse engine content = Some t
            \<and> tmpl_Execute engine t (buildTemplateData vars (computeBaseURL reqPath)) = None)"
  from fallback_taken [OF this]
  show "processTemplateContent engine vars stat content reqPath baseDir =
          processAssetPaths stat
            (replaceVars vars (strings_ReplaceAll content ''{{.BaseURL}}'' (computeBaseURL reqPath)))
            reqPath baseDir"
    by (simp add: fallbackContent_def)
next
  assume "placeholder \<noteq> []"
  then show "replaceVars [(placeholder, val)] placeholder = val"
    by (cases placeholder) (simp_all add: strings_ReplaceAll_def)
qed

theorem fallback_replaces_raw_values_witness:
  "tmpl_Parse failingEngine ''{{.From}} {{'' = None
   \<and> processTemplateContent failingEngine templateVars (\<lambda>p. False) ''{{.From}} {{'' ''a/email.html'' ''/srv''
       = ''Security Team <security@phishing.test> {{''
   \<and> replaceVars [(''{{.From}}'', ''Security Team <security@phishing.test>'')] ''{{.From}}''
       = ''Security Team <security@phishing.test>''"
proof -
  have n: "tmpl_Parse failingEngine ''{{.From}} {{'' = None"
    by (simp add: failingEngine_def)
  have r: "replaceVars templateVars
             (strings_ReplaceAll ''{{.From}} {{'' ''{{.BaseURL}}'' (computeBaseURL ''a/email.html''))
           = ''Security Team <security@phishing.test> {{''"
    by (simp add: templateVars_def trackerMarkup_def strings_ReplaceAll_def computeBaseURL_examples)
  have q: "\<forall>c \<in> set ''Security Team <security@phishing.test> {{''. \<not> isQuote c"
    by (simp add: isQuote_def)
  from fallback_replaces_raw_values
         [of failingEngine "''{{.From}} {{''" templateVars "''a/email.html''" "\<lambda>p. False" "''/srv''"
             "''{{.From}}''" "''Security Team <security@phishing.test>''"]
       n r processAssetPaths_no_quote [OF q]
  show ?thesis by simp
qed

text \<open>
  On the same table the engine escapes what the replacement does not: a document that the
  engine cannot parse (its last action is not closed) gets the sender with its angle
  brackets, the document \<open>{{.From}}\<close> gets them escaped.
\<close>

theorem fallback_does_not_escape:
  "processTemplateContent htmlTemplateFragment templateVars (\<lambda>p. False) ''{{.From}} {{'' ''a/email.html'' ''/srv''
       = ''Security Team <security@phishing.test> {{''
   \<and> processTemplateContent htmlTemplateFragment templateVars (\<lambda>p. False) ''{{.From}}'' ''a/email.html'' ''/srv''
       = ''Security Team &lt;security@phishing.test&gt;''"
proof
  have n: "tmpl_Parse htmlTemplateFragment ''{{.From}} {{'' = None"
    by (simp add: htmlTemplateFragment_def lexAction_def lexField_def isSpace_def isTerminator_def
          isIdentifier_def isAlpha_def isAlphaNumeric_def consNode_def consText_def addText_def
          lib_defs)
  have r: "fallbackContent templateVars ''{{.From}} {{'' (computeBaseURL ''a/email.html'')
           = ''Security Team <security@phishing.test> {{''"
    by (simp add: fallbackContent_def templateVars_def trackerMarkup_def strings_ReplaceAll_def
          computeBaseURL_examples)
  have q: "\<forall>c \<in> set ''Security Team <security@phishing.test> {{''. \<not> isQuote c"
    by (simp add: isQuote_def)
  have "processTemplateContent htmlTemplateFragment templateVars (\<lambda>p. False) ''{{.From}} {{''
          ''a/email.html'' ''/srv'' =
        processAssetPaths (\<lambda>p. False)
          (fallbackContent templateVars ''{{.From}} {{'' (computeBaseURL ''a/email.html''))
          ''a/email.html'' ''/srv''"
    using n by (intro fallback_taken disjI1)
  then show "processTemplateContent htmlTemplateFragment templateVars (\<lambda>p. False) ''{{.From}} {{''
                 ''a/email.html'' ''/srv'' = ''Security Team <security@phishing.test> {{''"
    by (simp only: r processAssetPaths_no_quote [OF q])
next
  have m: "(''{{.'' @ ''From'' @ ''}}'', ''Security Team <security@phishing.test>'') \<in> set templateVars"
    by (simp add: templateVars_def)
  have i: "isIdentifier ''From''"
    by (simp add: isIdentifier_def isAlpha_def isAlphaNumeric_def byte_def)
  from render_var [OF templateVars_distinct m i, of "\<lambda>p. False" "''a/email.html''" "''/srv''"]
  show "processTemplateContent htmlTemplateFragment templateVars (\<lambda>p. False) ''{{.From}}''
          ''a/email.html'' ''/srv'' = ''Security Team &lt;security@phishing.test&gt;''"
    by (simp add: htmlEscaper_def htmlEscapeChar_def)
qed

subsection \<open>How the attribute expressions scan a document\<close>

















subsection \<open>Collapsing slashes\<close>










subsection \<open>The two replacements at the start of \<^const>\<open>processAssetPaths\<close>\<close>










subsection \<open>A document with one reference\<close>












subsection \<open>What the rewriting leaves alone\<close>











subsection \<open>Rewriting twice\<close>


















end
